theory Spec2Isabelle
  imports Complex_Main "HOL-Library.Word"
begin

unbundle bit_operations_syntax

section \<open>Conventions of the embedding\<close>

text \<open>
  The development embeds \<^verbatim>\<open>klippy/extras/adxl345.py\<close> and
  \<^verbatim>\<open>klippy/extras/lis2dw.py\<close>.

  \<^item> Python's unbounded integers are \<^typ>\<open>int\<close>; the elements of a \<^verbatim>\<open>bytearray\<close>
    are \<^typ>\<open>8 word\<close>; 16-bit message fields (\<^verbatim>\<open>%hu\<close>) are \<^typ>\<open>16 word\<close>.
  \<^item> In the results and the session of \<^verbatim>\<open>adxl345.py\<close> Python's floats are
    idealised as \<^typ>\<open>real\<close>: the statements about its time stamps and scaled
    accelerations are about the exact value of the expression the code
    evaluates, not about its binary rounding. Where results are rounded or
    compared, in the calibration and in \<^verbatim>\<open>lis2dw.py\<close>, the float operations
    are parameters.
  \<^item> Every exception the code can raise is a value of \<open>error\<close>, returned as \<open>Inl\<close>.
  \<^item> An attribute that \<^verbatim>\<open>__init__\<close> does not create is an \<open>option\<close> field
    (\<open>None\<close> is "attribute missing"); a list cell holding Python's \<^verbatim>\<open>None\<close>
    is an \<open>option\<close> value as well.
\<close>

type_synonym byte = "8 word"

datatype error =
    ZeroDivisionError
  | IndexError
  | KeyError
  | AttributeError
  | UnboundLocalError
  | ValueError
  | CommandError

definition bind_res :: "error + 'a \<Rightarrow> ('a \<Rightarrow> error + 'b) \<Rightarrow> error + 'b" where
  "bind_res m f = (case m of Inl e \<Rightarrow> Inl e | Inr x \<Rightarrow> f x)"

text \<open>\<^verbatim>\<open>xs[k]\<close> for a non-negative index: IndexError beyond the end.\<close>

definition py_index :: "'a list \<Rightarrow> nat \<Rightarrow> error + 'a" where
  "py_index xs k = (if k < length xs then Inr (xs ! k) else Inl IndexError)"

text \<open>\<^verbatim>\<open>int(x)\<close> on a float truncates towards zero.\<close>

definition py_int :: "real \<Rightarrow> int" where
  "py_int x = (if 0 \<le> x then \<lfloor>x\<rfloor> else \<lceil>x\<rceil>)"

text \<open>\<^verbatim>\<open>round(x)\<close>: to the nearest integer, a tie going to the even neighbour.\<close>

definition py_round :: "real \<Rightarrow> int" where
  "py_round x =
     (let f = \<lfloor>x\<rfloor>; r = x - of_int f in
      if r < 1 / 2 then f
      else if 1 / 2 < r then f + 1
      else if even f then f else f + 1)"

text \<open>\<^verbatim>\<open>round(x, 6)\<close>.\<close>

definition py_round6 :: "real \<Rightarrow> real" where
  "py_round6 x = of_int (py_round (x * 1000000)) / 1000000"

section \<open>adxl345.py: constants\<close>

definition REG_DEVID :: int where "REG_DEVID = 0x00"
definition REG_BW_RATE :: int where "REG_BW_RATE = 0x2C"
definition REG_POWER_CTL :: int where "REG_POWER_CTL = 0x2D"
definition REG_DATA_FORMAT :: int where "REG_DATA_FORMAT = 0x31"
definition REG_FIFO_CTL :: int where "REG_FIFO_CTL = 0x38"
definition REG_MOD_READ :: int where "REG_MOD_READ = 0x80"
definition REG_THRESH_TAP :: int where "REG_THRESH_TAP = 0x1D"
definition REG_DUR :: int where "REG_DUR = 0x21"
definition REG_INT_MAP :: int where "REG_INT_MAP = 0x2F"
definition REG_TAP_AXES :: int where "REG_TAP_AXES = 0x2A"
definition REG_OFSX :: int where "REG_OFSX = 0x1E"
definition REG_OFSY :: int where "REG_OFSY = 0x1F"
definition REG_OFSZ :: int where "REG_OFSZ = 0x20"

definition QUERY_RATES :: "int \<Rightarrow> int option" where
  "QUERY_RATES rate =
     (if rate = 25 then Some 0x8 else if rate = 50 then Some 0x9
      else if rate = 100 then Some 0xa else if rate = 200 then Some 0xb
      else if rate = 400 then Some 0xc else if rate = 800 then Some 0xd
      else if rate = 1600 then Some 0xe else if rate = 3200 then Some 0xf
      else None)"

definition ADXL345_DEV_ID :: int where "ADXL345_DEV_ID = 0xe5"

definition FREEFALL_ACCEL :: real where "FREEFALL_ACCEL = 9.80665 * 1000"
definition SCALE :: real where "SCALE = 0.0039 * FREEFALL_ACCEL"
definition DUR_SCALE :: real where "DUR_SCALE = 0.000625"
definition TAP_SCALE :: real where "TAP_SCALE = 0.0625 * FREEFALL_ACCEL"
definition OFS_SCALE :: real where "OFS_SCALE = 0.0156 * FREEFALL_ACCEL"

definition PROBE_CALIBRATION_TIME :: real where "PROBE_CALIBRATION_TIME = 1"

section \<open>adxl345.py: \<^verbatim>\<open>ADXL345Results\<close>\<close>

record accel_measurement =
  time :: real
  accel_x :: real
  accel_y :: real
  accel_z :: real

text \<open>An axes map is the triple of (source index, scale) pairs the constructor builds.\<close>

type_synonym axes_map = "(nat \<times> real) \<times> (nat \<times> real) \<times> (nat \<times> real)"

text \<open>A buffered block: the extended sequence number and the payload.\<close>

type_synonym raw_block = "int \<times> byte list"

record adxl345_results =
  raw_samples :: "raw_block list option"
  samples :: "accel_measurement option list"
  drops :: int
  overflows :: int
  time_per_sample :: real
  start_range :: real
  end_range :: real
  axes_map :: "axes_map option"
  start2_time :: "real option"
  total_count :: "int option"
  seq_to_time :: "real option"

text \<open>\<^verbatim>\<open>ADXL345Results.__init__\<close>: the last four attributes do not exist yet.\<close>

definition ADXL345Results_init :: adxl345_results where
  "ADXL345Results_init =
     \<lparr> raw_samples = None, samples = [], drops = 0, overflows = 0,
       time_per_sample = 0, start_range = 0, end_range = 0,
       axes_map = None, start2_time = None, total_count = None,
       seq_to_time = None \<rparr>"

text \<open>Line 68: the sample count the final sequence number implies.\<close>

definition expected_total :: "raw_block list \<Rightarrow> int \<Rightarrow> int" where
  "expected_total raw end_sequence =
     (end_sequence - 1) * 8 + int (length (snd (last raw))) div 6"

text \<open>Line 72: the samples actually buffered.\<close>

definition received_count :: "raw_block list \<Rightarrow> int" where
  "received_count raw = sum_list (map (\<lambda>(_, data). int (length data) div 6) raw)"

definition setup_data ::
  "adxl345_results \<Rightarrow> axes_map \<Rightarrow> raw_block list \<Rightarrow> int \<Rightarrow> int \<Rightarrow>
   real \<Rightarrow> real \<Rightarrow> real \<Rightarrow> real \<Rightarrow> error + adxl345_results" where
  "setup_data self am raw end_sequence ovf start1_time start2 end1_time end2_time =
     (if raw = [] \<or> end_sequence = 0 then Inr self
      else
        let tc = expected_total raw end_sequence;
            total_time = end2_time - start2
        in if tc = 0 then Inl ZeroDivisionError
           else
             let tps = total_time / of_int tc;
                 actual_count = received_count raw
             in Inr (self\<lparr> axes_map := Some am,
                            raw_samples := Some raw,
                            overflows := ovf,
                            start2_time := Some start2,
                            start_range := start2 - start1_time,
                            end_range := end2_time - end1_time,
                            total_count := Some tc,
                            time_per_sample := tps,
                            seq_to_time := Some (tps * 8),
                            drops := tc - actual_count \<rparr>))"

text \<open>
  Line 83: the little-endian 16-bit values of a payload, sign-extended. The
  comprehension runs over \<^verbatim>\<open>range(0, count-1, 2)\<close>, that is over \<open>2 * k\<close> for
  \<open>k < count div 2\<close>, so both byte reads are inside the payload.
\<close>

definition sdata :: "byte list \<Rightarrow> int list" where
  "sdata d =
     map (\<lambda>k. (uint (d ! (2 * k)) OR push_bit 8 (uint (d ! (2 * k + 1))))
               - push_bit 9 (uint (d ! (2 * k + 1)) AND 0x80))
         [0..<length d div 2]"

text \<open>Lines 87 to 91, up to the store: one decoded sample.\<close>

definition decode_sample ::
  "axes_map \<Rightarrow> int list \<Rightarrow> real \<Rightarrow> real \<Rightarrow> nat \<Rightarrow> error + accel_measurement" where
  "decode_sample am sd seq_time tps i =
     (case am of ((x_pos, x_scale), (y_pos, y_scale), (z_pos, z_scale)) \<Rightarrow>
        let samp_time = seq_time + real i * tps in
        bind_res (py_index sd (i * 3 + x_pos)) (\<lambda>xv.
        bind_res (py_index sd (i * 3 + y_pos)) (\<lambda>yv.
        bind_res (py_index sd (i * 3 + z_pos)) (\<lambda>zv.
          Inr \<lparr> time = samp_time,
                accel_x = of_int xv * x_scale,
                accel_y = of_int yv * y_scale,
                accel_z = of_int zv * z_scale \<rparr>))))"

text \<open>
  The inner loop (line 86) over the preallocated array and the write index
  \<^verbatim>\<open>actual_count\<close>: a store beyond the array raises IndexError.
\<close>

fun decode_inner ::
  "axes_map \<Rightarrow> int list \<Rightarrow> real \<Rightarrow> real \<Rightarrow> nat list \<Rightarrow>
   accel_measurement option list \<times> nat \<Rightarrow>
   error + (accel_measurement option list \<times> nat)" where
  "decode_inner am sd seq_time tps [] st = Inr st"
| "decode_inner am sd seq_time tps (i # rest) (arr, actual_count) =
     bind_res (decode_sample am sd seq_time tps i) (\<lambda>m.
       if actual_count < length arr
       then decode_inner am sd seq_time tps rest
              (arr[actual_count := Some m], actual_count + 1)
       else Inl IndexError)"

text \<open>The outer loop (line 80) over the buffered blocks.\<close>

fun decode_outer ::
  "axes_map \<Rightarrow> real \<Rightarrow> real \<Rightarrow> real \<Rightarrow> raw_block list \<Rightarrow>
   accel_measurement option list \<times> nat \<Rightarrow>
   error + (accel_measurement option list \<times> nat)" where
  "decode_outer am start2 s2t tps [] st = Inr st"
| "decode_outer am start2 s2t tps ((seq, data) # rest) st =
     (let count = length data;
          sd = sdata data;
          seq_time = start2 + of_int seq * s2t
      in bind_res (decode_inner am sd seq_time tps [0..<count div 6] st)
           (decode_outer am start2 s2t tps rest))"

definition decode_samples ::
  "adxl345_results \<Rightarrow> error + (adxl345_results \<times> accel_measurement option list)" where
  "decode_samples self =
     (case raw_samples self of
        None \<Rightarrow> Inr (self, samples self)
      | Some [] \<Rightarrow> Inr (self, samples self)
      | Some (b # bs) \<Rightarrow>
         (case (axes_map self, total_count self, start2_time self, seq_to_time self) of
            (Some am, Some tc, Some start2, Some s2t) \<Rightarrow>
              bind_res
                (decode_outer am start2 s2t (time_per_sample self) (b # bs)
                   (replicate (nat tc) None, 0))
                (\<lambda>(arr, actual_count).
                   let out = take actual_count arr
                   in Inr (self\<lparr>samples := out\<rparr>, out))
          | _ \<Rightarrow> Inl AttributeError))"

section \<open>adxl345.py: \<^verbatim>\<open>ADXL345\<close>\<close>

text \<open>
  What the class exchanges with its collaborators is recorded in a log, so that
  "no interaction" is a statement about the state: bytes sent and transfers
  requested on the bus, and the two firmware commands.
\<close>

datatype io_event =
    SpiSend int int int
  | SpiTransfer int
  | QueryAdxl345 int int
  | QueryAdxl345End int

text \<open>
  The time-domain bridge of the firmware link (\<^verbatim>\<open>mcu.print_time_to_clock\<close>,
  \<^verbatim>\<open>mcu.seconds_to_clock\<close>, and \<^verbatim>\<open>mcu.clock_to_print_time\<close> after
  \<^verbatim>\<open>mcu.clock32_to_clock64\<close>) is a parameter.
\<close>

record mcu_clock =
  print_time_to_clock :: "real \<Rightarrow> int"
  seconds_to_clock :: "real \<Rightarrow> int"
  clock_to_print_time :: "int \<Rightarrow> real"

record adxl345 =
  query_rate :: int
  last_tx_time :: real
  data_rate :: int
  adxl_axes_map :: axes_map
  adxl_raw_samples :: "raw_block list"
  last_sequence :: int
  samples_start1 :: real
  samples_start2 :: real
  mcu :: mcu_clock
  regs :: "int \<Rightarrow> int"
  io_log :: "io_event list"

text \<open>An \<^verbatim>\<open>adxl345_data\<close> message.\<close>

record data_params =
  sequence :: "16 word"
  data :: "byte list"

text \<open>An \<^verbatim>\<open>adxl345_start\<close> message.\<close>

record start_params =
  start1_clock :: int
  start2_clock :: int

text \<open>An \<^verbatim>\<open>adxl345_end\<close> response.\<close>

record end_params =
  end1_clock :: int
  end2_clock :: int
  limit_count :: "16 word"
  end_sequence :: "16 word"

text \<open>
  Modelled from the spec: the bus layer (\<^verbatim>\<open>bus.py\<close>, not among the sources) and the
  chip behind it, as the register file the spec's \<^verbatim>\<open>readRegister\<close> and
  \<^verbatim>\<open>writeRegister\<close> contract describes: a byte sent to a register address is
  stored there, and a transfer answers with the byte stored.
\<close>

definition spi_send :: "adxl345 \<Rightarrow> int \<Rightarrow> int \<Rightarrow> int \<Rightarrow> adxl345" where
  "spi_send self reg b minclock =
     self\<lparr> regs := (regs self)(reg := b),
           io_log := io_log self @ [SpiSend reg b minclock] \<rparr>"

definition spi_transfer :: "adxl345 \<Rightarrow> int \<Rightarrow> int \<Rightarrow> int \<times> adxl345" where
  "spi_transfer self reg cmd =
     (regs self reg, self\<lparr> io_log := io_log self @ [SpiTransfer cmd] \<rparr>)"

definition read_reg :: "adxl345 \<Rightarrow> int \<Rightarrow> int \<times> adxl345" where
  "read_reg self reg = spi_transfer self reg (reg OR REG_MOD_READ)"

definition set_reg :: "adxl345 \<Rightarrow> int \<Rightarrow> int \<Rightarrow> int \<Rightarrow> error + adxl345" where
  "set_reg self reg val minclock =
     (let self1 = spi_send self reg (val AND 0xFF) minclock;
          (stored_val, self2) = read_reg self1 reg
      in if stored_val \<noteq> val then Inl CommandError else Inr self2)"

definition is_initialized :: "adxl345 \<Rightarrow> bool \<times> adxl345" where
  "is_initialized self =
     (let (dev_id, self1) = read_reg self REG_DEVID
      in if dev_id = ADXL345_DEV_ID
         then (let (fmt, self2) = read_reg self1 REG_DATA_FORMAT
               in (fmt AND 0xB \<noteq> 0, self2))
         else (False, self1))"

definition initialize :: "adxl345 \<Rightarrow> error + adxl345" where
  "initialize self =
     bind_res (set_reg self REG_POWER_CTL 0x00 0) (\<lambda>self1.
       let (dev_id, self2) = read_reg self1 REG_DEVID
       in if dev_id \<noteq> ADXL345_DEV_ID then Inl CommandError
          else set_reg self2 REG_DATA_FORMAT 0x0B 0)"

definition handle_adxl345_start :: "adxl345 \<Rightarrow> start_params \<Rightarrow> adxl345" where
  "handle_adxl345_start self params =
     self\<lparr> samples_start1 := clock_to_print_time (mcu self) (start1_clock params),
           samples_start2 := clock_to_print_time (mcu self) (start2_clock params) \<rparr>"

definition handle_adxl345_data :: "adxl345 \<Rightarrow> data_params \<Rightarrow> adxl345" where
  "handle_adxl345_data self params =
     (let last = last_sequence self;
          seq0 = (last AND NOT 0xffff) OR uint (sequence params);
          seq1 = (if seq0 < last then seq0 + 0x10000 else seq0);
          self1 = self\<lparr> last_sequence := seq1 \<rparr>
      in if 300000 \<le> length (adxl_raw_samples self1) then self1
         else self1\<lparr> adxl_raw_samples :=
                       adxl_raw_samples self1 @ [(seq1, data params)] \<rparr>)"

definition convert_sequence :: "adxl345 \<Rightarrow> 16 word \<Rightarrow> int" where
  "convert_sequence self sq =
     (let seq0 = (last_sequence self AND NOT 0xffff) OR uint sq
      in if seq0 < last_sequence self then seq0 + 0x10000 else seq0)"

definition is_measuring :: "adxl345 \<Rightarrow> bool" where
  "is_measuring self \<longleftrightarrow> 0 < query_rate self"

text \<open>
  \<^verbatim>\<open>start_measurements\<close>; \<open>print_time\<close> is what
  \<^verbatim>\<open>toolhead.get_last_move_time()\<close> answers.
\<close>

definition start_measurements :: "adxl345 \<Rightarrow> int option \<Rightarrow> real \<Rightarrow> error + adxl345" where
  "start_measurements self rate_arg print_time =
     (if is_measuring self then Inr self
      else
        let rate = (case rate_arg of None \<Rightarrow> data_rate self
                    | Some r \<Rightarrow> if r = 0 then data_rate self else r);
            (ini, self1) = is_initialized self
        in bind_res (if \<not> ini then initialize self1 else Inr self1) (\<lambda>self2.
           let clock = (if last_tx_time self2 \<noteq> 0
                        then print_time_to_clock (mcu self2) (last_tx_time self2) else 0)
           in bind_res (set_reg self2 REG_POWER_CTL 0x00 clock) (\<lambda>self3.
              bind_res (set_reg self3 REG_FIFO_CTL 0x00 0) (\<lambda>self4.
              case QUERY_RATES rate of
                None \<Rightarrow> Inl KeyError
              | Some code \<Rightarrow>
              bind_res (set_reg self4 REG_BW_RATE code 0) (\<lambda>self5.
              bind_res (set_reg self5 REG_FIFO_CTL 0x80 0) (\<lambda>self6.
                let reqclock = print_time_to_clock (mcu self6) print_time;
                    rest_ticks = seconds_to_clock (mcu self6) (4 / of_int rate)
                in Inr (self6\<lparr> adxl_raw_samples := [],
                                last_sequence := 0,
                                samples_start1 := print_time,
                                samples_start2 := print_time,
                                last_tx_time := print_time,
                                query_rate := rate,
                                io_log := io_log self6
                                           @ [QueryAdxl345 reqclock rest_ticks] \<rparr>)))))))"

text \<open>
  \<^verbatim>\<open>finish_measurements\<close>; \<open>print_time\<close> as above, \<open>params\<close> the firmware's
  answer to the stop query. The log line after \<^verbatim>\<open>setup_data\<close> reads
  \<^verbatim>\<open>res.total_count\<close>, which exists only if \<^verbatim>\<open>setup_data\<close> got that far.
\<close>

definition finish_measurements ::
  "adxl345 \<Rightarrow> real \<Rightarrow> end_params \<Rightarrow> error + (adxl345 \<times> adxl345_results)" where
  "finish_measurements self print_time params =
     (if \<not> is_measuring self then Inr (self, ADXL345Results_init)
      else
        let clock = print_time_to_clock (mcu self) print_time;
            self1 = self\<lparr> io_log := io_log self @ [QueryAdxl345End clock] \<rparr>;
            self2 = self1\<lparr> last_tx_time := print_time, query_rate := 0 \<rparr>;
            raw = adxl_raw_samples self2;
            self3 = self2\<lparr> adxl_raw_samples := [] \<rparr>;
            end1_time = clock_to_print_time (mcu self3) (end1_clock params);
            end2_time = clock_to_print_time (mcu self3) (end2_clock params);
            end_seq = convert_sequence self3 (end_sequence params);
            ovf = uint (limit_count params)
        in bind_res
             (setup_data ADXL345Results_init (adxl_axes_map self3) raw end_seq ovf
                (samples_start1 self3) (samples_start2 self3) end1_time end2_time)
             (\<lambda>res. case total_count res of
                      None \<Rightarrow> Inl AttributeError
                    | Some _ \<Rightarrow> Inr (self3, res)))"

section \<open>adxl345.py: \<^verbatim>\<open>ADXL345EndstopWrapper\<close>\<close>

text \<open>
  The calibration compares and rounds what it computes in floats, so here the
  float operations are parameters of which nothing is assumed: floats are
  reals, \<open>fl_add\<close>, \<open>fl_sub\<close>, \<open>fl_mul\<close> and \<open>fl_div\<close> are \<^verbatim>\<open>+\<close>, \<^verbatim>\<open>-\<close>,
  \<^verbatim>\<open>*\<close> and \<^verbatim>\<open>/\<close> with their rounding, \<open>fl_sq\<close> is \<^verbatim>\<open>v**2\<close>, \<open>fl_sqrt\<close> is
  \<^verbatim>\<open>math.sqrt\<close> and \<open>fl_round\<close> is \<^verbatim>\<open>int(round(v))\<close>. Negation, \<^verbatim>\<open>abs\<close>,
  \<^verbatim>\<open>max\<close>, \<^verbatim>\<open>int\<close> and the comparisons are exact on floats.
\<close>

record float_arith =
  fl_add :: "real \<Rightarrow> real \<Rightarrow> real"
  fl_sub :: "real \<Rightarrow> real \<Rightarrow> real"
  fl_mul :: "real \<Rightarrow> real \<Rightarrow> real"
  fl_div :: "real \<Rightarrow> real \<Rightarrow> real"
  fl_sq :: "real \<Rightarrow> real"
  fl_sqrt :: "real \<Rightarrow> real"
  fl_round :: "real \<Rightarrow> int"

text \<open>What \<^verbatim>\<open>msg_func\<close> is given, with the numbers the text is formatted from.\<close>

datatype message =
    FreefallRetrying real int
  | FreefallAborting real
  | NoiseRetrying real real int
  | NoiseAborting real real
  | SuccessfullyCalibrated

record endstop_wrapper =
  calibrated :: bool
  adxl345 :: adxl345
  w_axes_map :: axes_map
  inverted :: bool
  int_map :: int
  tap_thresh :: real
  tap_dur :: real
  messages :: "message list"

definition ofs_regs :: "int list" where
  "ofs_regs = [REG_OFSX, REG_OFSY, REG_OFSZ]"

text \<open>The loop of line 239.\<close>

fun zero_offsets :: "adxl345 \<Rightarrow> int list \<Rightarrow> error + adxl345" where
  "zero_offsets a [] = Inr a"
| "zero_offsets a (reg # rest) =
     bind_res (set_reg a reg 0x00 0) (\<lambda>a1. zero_offsets a1 rest)"

text \<open>
  \<^verbatim>\<open>calibrate\<close>, up to the registration of the \<^verbatim>\<open>_offset_axes\<close> callback:
  the result holds the retry budget the callback is registered with.
\<close>

definition calibrate ::
  "float_arith \<Rightarrow> endstop_wrapper \<Rightarrow> int \<Rightarrow> real \<Rightarrow> error + (endstop_wrapper \<times> int)" where
  "calibrate fa self retries print_time =
     (let (ini, a1) = is_initialized (adxl345 self)
      in bind_res (if \<not> ini then initialize a1 else Inr a1) (\<lambda>a2.
         bind_res (set_reg a2 REG_POWER_CTL 0x00 0) (\<lambda>a3.
         bind_res (if inverted self then set_reg a3 REG_DATA_FORMAT 0x2B 0 else Inr a3) (\<lambda>a4.
         bind_res (set_reg a4 REG_INT_MAP (int_map self) 0) (\<lambda>a5.
         bind_res (set_reg a5 REG_TAP_AXES 0x7 0) (\<lambda>a6.
         bind_res (set_reg a6 REG_THRESH_TAP
                     (py_int (fl_div fa (tap_thresh self) TAP_SCALE)) 0) (\<lambda>a7.
         bind_res (set_reg a7 REG_DUR (py_int (fl_div fa (tap_dur self) DUR_SCALE)) 0) (\<lambda>a8.
         bind_res (zero_offsets a8 ofs_regs) (\<lambda>a9.
         bind_res (start_measurements a9 None print_time) (\<lambda>a10.
           Inr (self\<lparr> adxl345 := a10 \<rparr>, retries)))))))))))"

text \<open>The default argument \<^verbatim>\<open>retries=3\<close>.\<close>

definition calibrate_default ::
  "float_arith \<Rightarrow> endstop_wrapper \<Rightarrow> real \<Rightarrow> error + (endstop_wrapper \<times> int)" where
  "calibrate_default fa self print_time = calibrate fa self 3 print_time"

text \<open>\<^verbatim>\<open>s.accel_x\<close> on a list cell: a cell holding \<^verbatim>\<open>None\<close> has no such attribute.\<close>

fun cells :: "accel_measurement option list \<Rightarrow> error + accel_measurement list" where
  "cells [] = Inr []"
| "cells (None # rest) = Inl AttributeError"
| "cells (Some m # rest) = bind_res (cells rest) (\<lambda>ms. Inr (m # ms))"

text \<open>
  \<^verbatim>\<open>sum([...]) / len(samples)\<close>: the sum adds from the left, starting at 0,
  and the division raises on an empty list.
\<close>

definition mean_of ::
  "float_arith \<Rightarrow> (accel_measurement \<Rightarrow> real) \<Rightarrow> accel_measurement list \<Rightarrow> error + real" where
  "mean_of fa f ms =
     (if length ms = 0 then Inl ZeroDivisionError
      else Inr (fl_div fa (foldl (fl_add fa) 0 (map f ms)) (real (length ms))))"

text \<open>\<^verbatim>\<open>max([...])\<close> of a list.\<close>

fun py_max :: "real list \<Rightarrow> error + real" where
  "py_max [] = Inl ValueError"
| "py_max (v # vs) = Inr (fold max vs v)"

text \<open>Line 279: the byte for an offset register.\<close>

definition ofs_val :: "float_arith \<Rightarrow> real \<Rightarrow> real \<Rightarrow> int" where
  "ofs_val fa ofs axis_scale =
     0xFF AND fl_round fa (fl_mul fa (fl_div fa (- ofs) axis_scale) (fl_div fa SCALE OFS_SCALE))"

text \<open>The loop of line 277, over the three (offset, axis) pairs.\<close>

fun write_offsets ::
  "float_arith \<Rightarrow> adxl345 \<Rightarrow> (real \<times> (nat \<times> real)) list \<Rightarrow> error + adxl345" where
  "write_offsets fa a [] = Inr a"
| "write_offsets fa a ((ofs, (pos, axis_scale)) # rest) =
     bind_res (py_index ofs_regs pos) (\<lambda>ofs_reg.
       if axis_scale = 0 then Inl ZeroDivisionError
       else bind_res (set_reg a ofs_reg (ofs_val fa ofs axis_scale) 0) (\<lambda>a1.
              write_offsets fa a1 rest))"

text \<open>How one run of \<^verbatim>\<open>_offset_axes\<close> ends.\<close>

datatype outcome =
    Rescheduled int
  | Aborted
  | Calibrated

text \<open>
  The retry-or-abort branch shared by both checks: with budget left,
  \<^verbatim>\<open>calibrate\<close> is entered again with \<^verbatim>\<open>retries - 1\<close>.
\<close>

definition retry_or_abort ::
  "float_arith \<Rightarrow> endstop_wrapper \<Rightarrow> int \<Rightarrow> real \<Rightarrow> message \<Rightarrow> message \<Rightarrow>
   error + (endstop_wrapper \<times> outcome)" where
  "retry_or_abort fa self retries restart_time retry_msg abort_msg =
     (if 0 < retries
      then bind_res
             (calibrate fa (self\<lparr> messages := messages self @ [retry_msg] \<rparr>)
                (retries - 1) restart_time)
             (\<lambda>(self1, r). Inr (self1, Rescheduled r))
      else Inr (self\<lparr> messages := messages self @ [abort_msg] \<rparr>, Aborted))"

text \<open>
  \<^verbatim>\<open>_offset_axes\<close>: \<open>finish_time\<close> and \<open>params\<close> are what the toolhead and the
  firmware answer inside \<^verbatim>\<open>finish_measurements\<close>, \<open>restart_time\<close> what the
  toolhead answers if \<^verbatim>\<open>calibrate\<close> is entered again.
\<close>

definition offset_axes ::
  "float_arith \<Rightarrow> endstop_wrapper \<Rightarrow> int \<Rightarrow> real \<Rightarrow> end_params \<Rightarrow> real \<Rightarrow>
   error + (endstop_wrapper \<times> outcome)" where
  "offset_axes fa self retries finish_time params restart_time =
     bind_res (finish_measurements (adxl345 self) finish_time params) (\<lambda>(a1, res).
     bind_res (decode_samples res) (\<lambda>(res1, cs).
     bind_res (cells cs) (\<lambda>ms.
     bind_res (mean_of fa accel_x ms) (\<lambda>x_ofs.
     bind_res (mean_of fa accel_y ms) (\<lambda>y_ofs.
     bind_res (mean_of fa accel_z ms) (\<lambda>z_ofs.
       let self1 = self\<lparr> adxl345 := a1 \<rparr>;
           meas_freefall_accel =
             fl_sqrt fa (fl_add fa (fl_add fa (fl_sq fa x_ofs) (fl_sq fa y_ofs))
                           (fl_sq fa z_ofs))
       in if fl_mul fa FREEFALL_ACCEL 0.5
               < \<bar>fl_sub fa meas_freefall_accel FREEFALL_ACCEL\<bar>
          then retry_or_abort fa self1 retries restart_time
                 (FreefallRetrying meas_freefall_accel (retries - 1))
                 (FreefallAborting meas_freefall_accel)
          else
            bind_res (py_max (map (\<lambda>s. \<bar>fl_sub fa (accel_x s) x_ofs\<bar>) ms)) (\<lambda>x_m.
            bind_res (py_max (map (\<lambda>s. \<bar>fl_sub fa (accel_y s) y_ofs\<bar>) ms)) (\<lambda>y_m.
            bind_res (py_max (map (\<lambda>s. \<bar>fl_sub fa (accel_z s) z_ofs\<bar>) ms)) (\<lambda>z_m.
              let accel_noise = max (max x_m y_m) z_m
              in if tap_thresh self1 < accel_noise
                 then retry_or_abort fa self1 retries restart_time
                        (NoiseRetrying (tap_thresh self1) accel_noise (retries - 1))
                        (NoiseAborting (tap_thresh self1) accel_noise)
                 else
                   (case w_axes_map self1 of (ax, ay, az) \<Rightarrow>
                      bind_res
                        (write_offsets fa a1 [(x_ofs, ax), (y_ofs, ay), (z_ofs, az)])
                        (\<lambda>a2. Inr (self1\<lparr> adxl345 := a2,
                                          messages := messages self1
                                                      @ [SuccessfullyCalibrated],
                                          calibrated := True \<rparr>,
                                   Calibrated))))))))))))"

text \<open>
  What reaches the driver between one \<^verbatim>\<open>calibrate\<close> and the callback it
  registered: the messages of the firmware, in their order of arrival, and the
  answers of the collaborators when the callback runs.
\<close>

record attempt =
  start_msg :: "start_params option"
  blocks :: "data_params list"
  finish_time :: real
  end_msg :: end_params
  restart_time :: real

definition deliver :: "adxl345 \<Rightarrow> attempt \<Rightarrow> adxl345" where
  "deliver a att =
     foldl handle_adxl345_data
       (case start_msg att of None \<Rightarrow> a | Some sp \<Rightarrow> handle_adxl345_start a sp)
       (blocks att)"

text \<open>
  The reactor running the registered callbacks, one per attempt, after the
  settling interval: the result is the wrapper, how the last callback ended and
  the number of callbacks run. When the attempts run out with a callback still
  registered the outcome is \<open>Rescheduled\<close>.
\<close>

fun run_callbacks ::
  "float_arith \<Rightarrow> endstop_wrapper \<Rightarrow> int \<Rightarrow> attempt list \<Rightarrow> nat \<Rightarrow>
   error + (endstop_wrapper \<times> outcome \<times> nat)" where
  "run_callbacks fa self retries [] n = Inr (self, Rescheduled retries, n)"
| "run_callbacks fa self retries (att # rest) n =
     bind_res
       (offset_axes fa (self\<lparr> adxl345 := deliver (adxl345 self) att \<rparr>) retries
          (finish_time att) (end_msg att) (restart_time att))
       (\<lambda>(self1, out).
          case out of
            Rescheduled r \<Rightarrow> run_callbacks fa self1 r rest (n + 1)
          | _ \<Rightarrow> Inr (self1, out, n + 1))"

section \<open>lis2dw.py: \<^verbatim>\<open>LIS2DW._extract_samples\<close>\<close>

definition BYTES_PER_SAMPLE :: nat where "BYTES_PER_SAMPLE = 6"
definition SAMPLES_PER_BLOCK :: nat where "SAMPLES_PER_BLOCK = 8"

text \<open>
  What this function publishes are floats after Python's \<^verbatim>\<open>round(v, 6)\<close>, so
  here the floats are not idealised: they are the values of a type \<open>'f\<close>, and
  the operations the code applies to them are parameters of which nothing is
  assumed. \<open>f_int\<close> is the conversion of an integer operand, \<open>f_add\<close>,
  \<open>f_sub\<close> and \<open>f_mul\<close> are the float operations \<^verbatim>\<open>+\<close>, \<^verbatim>\<open>-\<close> and \<^verbatim>\<open>*\<close>
  with their rounding, and \<open>f_round6\<close> is \<^verbatim>\<open>round(v, 6)\<close>.
\<close>

record 'f float_ops =
  f_int :: "int \<Rightarrow> 'f"
  f_add :: "'f \<Rightarrow> 'f \<Rightarrow> 'f"
  f_sub :: "'f \<Rightarrow> 'f \<Rightarrow> 'f"
  f_mul :: "'f \<Rightarrow> 'f \<Rightarrow> 'f"
  f_round6 :: "'f \<Rightarrow> 'f"

text \<open>A published sample is the tuple \<^verbatim>\<open>(ptime, x, y, z)\<close>.\<close>

type_synonym 'f lis2dw_sample = "'f \<times> 'f \<times> 'f \<times> 'f"

text \<open>The axes map of this chip: (source index, scale) pairs, the scales floats.\<close>

type_synonym 'f lis2dw_axes_map = "(nat \<times> 'f) \<times> (nat \<times> 'f) \<times> (nat \<times> 'f)"

text \<open>
  The answer of \<^verbatim>\<open>clock_sync.get_time_translation()\<close>; the clock
  synchroniser (\<^verbatim>\<open>bulk_sensor.py\<close>) is a parameter, as are the axes map and
  \<^verbatim>\<open>clock_updater.get_last_sequence()\<close>.
\<close>

record 'f time_translation =
  time_base :: 'f
  chip_base :: 'f
  inv_freq :: 'f

text \<open>Lines 113 to 115: the block's sequence number, extended around the last one.\<close>

definition block_seq :: "int \<Rightarrow> 16 word \<Rightarrow> int" where
  "block_seq last_seq sq =
     (let seq_diff = (uint sq - last_seq) AND 0xffff;
          seq_diff1 = seq_diff - push_bit 1 (seq_diff AND 0x8000)
      in last_seq + seq_diff1)"

text \<open>Lines 124 to 126: merge two bytes and take the two's complement.\<close>

definition merge_bytes :: "byte \<Rightarrow> byte \<Rightarrow> int" where
  "merge_bytes low high =
     (push_bit 8 (uint high) OR uint low) - push_bit 9 (uint high AND 0x80)"

text \<open>
  Lines 120 to 134: one sample. The slice is unpacked into six names, which
  raises ValueError unless it holds exactly six bytes.
\<close>

definition extract_sample ::
  "'f float_ops \<Rightarrow> 'f lis2dw_axes_map \<Rightarrow> 'f time_translation \<Rightarrow> 'f \<Rightarrow> byte list \<Rightarrow> nat \<Rightarrow>
   error + 'f lis2dw_sample" where
  "extract_sample ops am tt msg_cdiff d i =
     (case am of ((x_pos, x_scale), (y_pos, y_scale), (z_pos, z_scale)) \<Rightarrow>
        (case take BYTES_PER_SAMPLE (drop (i * BYTES_PER_SAMPLE) d) of
           [xlow, xhigh, ylow, yhigh, zlow, zhigh] \<Rightarrow>
             let raw_xyz = [merge_bytes xlow xhigh, merge_bytes ylow yhigh,
                            merge_bytes zlow zhigh]
             in bind_res (py_index raw_xyz x_pos) (\<lambda>rx.
                bind_res (py_index raw_xyz y_pos) (\<lambda>ry.
                bind_res (py_index raw_xyz z_pos) (\<lambda>rz.
                  let x = f_round6 ops (f_mul ops (f_int ops rx) x_scale);
                      y = f_round6 ops (f_mul ops (f_int ops ry) y_scale);
                      z = f_round6 ops (f_mul ops (f_int ops rz) z_scale);
                      ptime = f_round6 ops
                                (f_add ops (time_base tt)
                                   (f_mul ops (f_add ops msg_cdiff (f_int ops (int i)))
                                      (inv_freq tt)))
                  in Inr (ptime, x, y, z))))
         | _ \<Rightarrow> Inl ValueError))"

text \<open>
  The state of the two loops: the preallocated array, the write index
  \<^verbatim>\<open>count\<close>, and the loop variable \<^verbatim>\<open>i\<close>, which is unbound until the inner
  loop has run once.
\<close>

type_synonym 'f extract_state = "'f lis2dw_sample option list \<times> nat \<times> nat option"

fun extract_inner ::
  "'f float_ops \<Rightarrow> 'f lis2dw_axes_map \<Rightarrow> 'f time_translation \<Rightarrow> 'f \<Rightarrow> byte list \<Rightarrow>
   nat list \<Rightarrow> 'f extract_state \<Rightarrow> error + 'f extract_state" where
  "extract_inner ops am tt msg_cdiff d [] st = Inr st"
| "extract_inner ops am tt msg_cdiff d (i # rest) (arr, count, iv) =
     bind_res (extract_sample ops am tt msg_cdiff d i) (\<lambda>smp.
       if count < length arr
       then extract_inner ops am tt msg_cdiff d rest
              (arr[count := Some smp], count + 1, Some i)
       else Inl IndexError)"

text \<open>The outer loop; the state carries \<^verbatim>\<open>seq\<close> as well.\<close>

fun extract_outer ::
  "'f float_ops \<Rightarrow> 'f lis2dw_axes_map \<Rightarrow> int \<Rightarrow> 'f time_translation \<Rightarrow> data_params list \<Rightarrow>
   int \<times> 'f extract_state \<Rightarrow> error + (int \<times> 'f extract_state)" where
  "extract_outer ops am last_seq tt [] st = Inr st"
| "extract_outer ops am last_seq tt (params # rest) (sq, st) =
     (let seq1 = block_seq last_seq (sequence params);
          d = data params;
          msg_cdiff = f_sub ops (f_int ops (seq1 * int SAMPLES_PER_BLOCK)) (chip_base tt)
      in bind_res
           (extract_inner ops am tt msg_cdiff d [0..<length d div BYTES_PER_SAMPLE] st)
           (\<lambda>st1. extract_outer ops am last_seq tt rest (seq1, st1)))"

text \<open>
  \<^verbatim>\<open>_extract_samples\<close>: the result is the list returned and the argument of
  \<^verbatim>\<open>clock_sync.set_last_chip_clock\<close>.
\<close>

definition extract_samples ::
  "'f float_ops \<Rightarrow> 'f lis2dw_axes_map \<Rightarrow> int \<Rightarrow> 'f time_translation \<Rightarrow> data_params list \<Rightarrow>
   error + ('f lis2dw_sample option list \<times> int)" where
  "extract_samples ops am last_seq tt raw =
     bind_res
       (extract_outer ops am last_seq tt raw
          (0, replicate (length raw * SAMPLES_PER_BLOCK) None, 0, None))
       (\<lambda>(sq, arr, count, iv).
          case iv of
            None \<Rightarrow> Inl UnboundLocalError
          | Some i \<Rightarrow> Inr (take count arr, sq * int SAMPLES_PER_BLOCK + int i))"

section \<open>Hypotheses of the properties, and example inputs\<close>

text \<open>
  The hypothesis under which the sequence extension is exact: every true block
  count is at least the one before it and less than one wrap period (65536
  blocks) above it.
\<close>

fun within_wrap_period :: "int \<Rightarrow> int list \<Rightarrow> bool" where
  "within_wrap_period c [] = True"
| "within_wrap_period c (t # ts) = (c \<le> t \<and> t < c + 65536 \<and> within_wrap_period t ts)"

text \<open>
  The \<^verbatim>\<open>adxl345_data\<close> message the firmware sends for the block whose true
  count and payload are given: the sequence field is the count's low 16 bits.
\<close>

definition observed :: "int \<times> byte list \<Rightarrow> data_params" where
  "observed b = \<lparr> sequence = word_of_int (fst b), data = snd b \<rparr>"

text \<open>
  \<^verbatim>\<open>ADXL345.__init__\<close>, lines 346 to 361: the session state of a fresh object,
  for the configured axes map and rate and the given collaborators.
\<close>

definition ADXL345_init :: "axes_map \<Rightarrow> int \<Rightarrow> mcu_clock \<Rightarrow> (int \<Rightarrow> int) \<Rightarrow> adxl345" where
  "ADXL345_init am rate clk chip =
     \<lparr> query_rate = 0, last_tx_time = 0, data_rate = rate, adxl_axes_map = am,
       adxl_raw_samples = [], last_sequence = 0, samples_start1 = 0,
       samples_start2 = 0, mcu = clk, regs = chip, io_log = [] \<rparr>"

text \<open>An example: a clock of 1000 ticks per second, a chip that identifies itself.\<close>

definition example_mcu :: mcu_clock where
  "example_mcu =
     \<lparr> print_time_to_clock = (\<lambda>t. \<lfloor>t * 1000\<rfloor>),
       seconds_to_clock = (\<lambda>t. \<lfloor>t * 1000\<rfloor>),
       clock_to_print_time = (\<lambda>c. of_int c / 1000) \<rparr>"

definition example_chip :: "int \<Rightarrow> int" where
  "example_chip = (\<lambda>reg. if reg = REG_DEVID then ADXL345_DEV_ID else 0)"

text \<open>The default axes map \<^verbatim>\<open>x,y,z\<close>.\<close>

definition example_axes_map :: axes_map where
  "example_axes_map = ((0, SCALE), (1, SCALE), (2, SCALE))"

definition example_adxl345 :: adxl345 where
  "example_adxl345 = ADXL345_init example_axes_map 3200 example_mcu example_chip"

text \<open>A measuring session whose buffer holds exactly the cap of 300000 blocks.\<close>

definition full_adxl345 :: adxl345 where
  "full_adxl345 = example_adxl345\<lparr> query_rate := 3200,
      adxl_raw_samples := replicate 300000 (0, replicate 48 0), last_sequence := 299999 \<rparr>"

text \<open>
  A well-formed finished session: the buffered blocks are in sequence order
  (strictly increasing, non-negative extended sequence numbers), a block holds
  at most the 8 samples of a full block, and the final sequence number lies
  beyond the last buffered block.
\<close>

definition well_formed_session :: "raw_block list \<Rightarrow> int \<Rightarrow> bool" where
  "well_formed_session raw e \<longleftrightarrow>
     sorted_wrt (<) (map fst raw)
     \<and> (\<forall>b \<in> set raw. 0 \<le> fst b \<and> length (snd b) div 6 \<le> 8)
     \<and> (raw \<noteq> [] \<longrightarrow> fst (last raw) < e)"

text \<open>
  The source indices an axes map can hold: the table \<^verbatim>\<open>am\<close> of the constructor
  (line 349) has the indices 0, 1 and 2 only.
\<close>

definition valid_positions :: "axes_map \<Rightarrow> bool" where
  "valid_positions am \<longleftrightarrow>
     (case am of ((x_pos, _), (y_pos, _), (z_pos, _)) \<Rightarrow> x_pos < 3 \<and> y_pos < 3 \<and> z_pos < 3)"

text \<open>
  The closed form of the interval decoder, to compare the loops with: sample
  \<open>i\<close> of a block, and the samples of a block and of a buffer in their order.
\<close>

definition sample_of :: "axes_map \<Rightarrow> int list \<Rightarrow> real \<Rightarrow> real \<Rightarrow> nat \<Rightarrow> accel_measurement" where
  "sample_of am sd seq_time tps i =
     (case am of ((x_pos, x_scale), (y_pos, y_scale), (z_pos, z_scale)) \<Rightarrow>
        \<lparr> time = seq_time + real i * tps,
          accel_x = of_int (sd ! (i * 3 + x_pos)) * x_scale,
          accel_y = of_int (sd ! (i * 3 + y_pos)) * y_scale,
          accel_z = of_int (sd ! (i * 3 + z_pos)) * z_scale \<rparr>)"

definition block_samples ::
  "axes_map \<Rightarrow> real \<Rightarrow> real \<Rightarrow> real \<Rightarrow> raw_block \<Rightarrow> accel_measurement list" where
  "block_samples am start2 s2t tps b =
     map (sample_of am (sdata (snd b)) (start2 + of_int (fst b) * s2t) tps)
       [0..<length (snd b) div 6]"

text \<open>Every sample of the block decodes: no index leaves the 16-bit values.\<close>

definition decodable :: "axes_map \<Rightarrow> real \<Rightarrow> real \<Rightarrow> real \<Rightarrow> raw_block \<Rightarrow> bool" where
  "decodable am start2 s2t tps b \<longleftrightarrow>
     (\<forall>i < length (snd b) div 6.
        \<exists>m. decode_sample am (sdata (snd b)) (start2 + of_int (fst b) * s2t) tps i = Inr m)"

text \<open>The sample indices (ticks) of a block: 8 per sequence number.\<close>

definition block_ticks :: "raw_block \<Rightarrow> int list" where
  "block_ticks b = map (\<lambda>i. 8 * fst b + int i) [0..<length (snd b) div 6]"

text \<open>
  Example sessions. The first lost block 1 and ends with a partial block; the
  second holds two consecutive full blocks; the third holds more samples than
  its final sequence number accounts for.
\<close>

definition example_raw :: "raw_block list" where
  "example_raw = [(0, replicate 48 0), (2, replicate 48 0), (3, replicate 15 1)]"

definition example_results :: adxl345_results where
  "example_results = ADXL345Results_init\<lparr> axes_map := Some example_axes_map,
            raw_samples := Some example_raw, overflows := 0, start2_time := Some 0,
            start_range := 0, end_range := 0, total_count := Some 26,
            time_per_sample := 1 / 26, seq_to_time := Some (1 / 26 * 8),
            drops := 8 \<rparr>"

definition full_raw :: "raw_block list" where
  "full_raw = [(0, replicate 48 0), (1, replicate 48 0)]"

definition full_results :: adxl345_results where
  "full_results = ADXL345Results_init\<lparr> axes_map := Some example_axes_map,
            raw_samples := Some full_raw, overflows := 0, start2_time := Some 0,
            start_range := 0, end_range := 0, total_count := Some 16,
            time_per_sample := 1 / 16, seq_to_time := Some (1 / 16 * 8),
            drops := 0 \<rparr>"

definition overfull_raw :: "raw_block list" where
  "overfull_raw = [(0, replicate 48 0), (0, replicate 48 0)]"

definition overfull_results :: adxl345_results where
  "overfull_results = ADXL345Results_init\<lparr> axes_map := Some example_axes_map,
            raw_samples := Some overfull_raw, overflows := 0, start2_time := Some 0,
            start_range := 0, end_range := 0, total_count := Some 8,
            time_per_sample := 1 / 8, seq_to_time := Some (1 / 8 * 8),
            drops := - 8 \<rparr>"

text \<open>
  The closed form of the regression decoder, to compare the loops with, in the
  float operations of the code: for sample \<open>i\<close> of the block with extended
  sequence number \<open>sq\<close> the tick offset \<^verbatim>\<open>tick - chip_base\<close> is evaluated as
  \<^verbatim>\<open>(sq * 8 - chip_base) + i\<close>.
\<close>

definition regression_time :: "'f float_ops \<Rightarrow> 'f time_translation \<Rightarrow> int \<Rightarrow> nat \<Rightarrow> 'f" where
  "regression_time ops tt sq i =
     f_round6 ops
       (f_add ops (time_base tt)
          (f_mul ops
             (f_add ops (f_sub ops (f_int ops (sq * 8)) (chip_base tt)) (f_int ops (int i)))
             (inv_freq tt)))"

definition lis_sample_of ::
  "'f float_ops \<Rightarrow> 'f lis2dw_axes_map \<Rightarrow> 'f time_translation \<Rightarrow> int \<Rightarrow> byte list \<Rightarrow> nat \<Rightarrow>
   'f lis2dw_sample" where
  "lis_sample_of ops am tt sq d i =
     (case am of ((x_pos, x_scale), (y_pos, y_scale), (z_pos, z_scale)) \<Rightarrow>
        let raw_xyz = [merge_bytes (d ! (6 * i)) (d ! (6 * i + 1)),
                       merge_bytes (d ! (6 * i + 2)) (d ! (6 * i + 3)),
                       merge_bytes (d ! (6 * i + 4)) (d ! (6 * i + 5))]
        in (regression_time ops tt sq i,
            f_round6 ops (f_mul ops (f_int ops (raw_xyz ! x_pos)) x_scale),
            f_round6 ops (f_mul ops (f_int ops (raw_xyz ! y_pos)) y_scale),
            f_round6 ops (f_mul ops (f_int ops (raw_xyz ! z_pos)) z_scale)))"

definition lis_block ::
  "'f float_ops \<Rightarrow> 'f lis2dw_axes_map \<Rightarrow> 'f time_translation \<Rightarrow> int \<Rightarrow> data_params \<Rightarrow>
   'f lis2dw_sample list" where
  "lis_block ops am tt last_seq p =
     map (lis_sample_of ops am tt (block_seq last_seq (sequence p)) (data p))
       [0..<length (data p) div 6]"

text \<open>A value that \<^verbatim>\<open>round(v, 6)\<close> has returned.\<close>

definition rounded6 :: "'f float_ops \<Rightarrow> 'f \<Rightarrow> bool" where
  "rounded6 ops v \<longleftrightarrow> (\<exists>u. v = f_round6 ops u)"

text \<open>
  Example inputs for the regression decoder. The operations of the example are
  those of exact arithmetic on the reals, with \<^verbatim>\<open>round(v, 6)\<close> as rounding to
  the nearest millionth. The batches: one block of one sample and a trailing
  partial group, and one block shorter than a sample.
\<close>

definition exact_ops :: "real float_ops" where
  "exact_ops = \<lparr> f_int = of_int, f_add = (+), f_sub = (-), f_mul = (*), f_round6 = py_round6 \<rparr>"

definition example_lis_axes :: "real lis2dw_axes_map" where
  "example_lis_axes = ((0, 9.80665 * 1.952 / 4), (1, 9.80665 * 1.952 / 4), (2, - (9.80665 * 1.952 / 4)))"

definition example_translation :: "real time_translation" where
  "example_translation = \<lparr> time_base = 10, chip_base = 32, inv_freq = 1 / 1600 \<rparr>"

definition example_batch :: "data_params list" where
  "example_batch = [\<lparr> sequence = 5, data = [1, 0, 0xff, 0xff, 0, 1, 9, 9, 9] \<rparr>]"

definition short_batch :: "data_params list" where
  "short_batch = [\<lparr> sequence = 5, data = [1, 2, 3] \<rparr>]"

text \<open>
  What reaches the full session after its buffer has reached the cap: two more
  blocks, and the answer to the stop query, whose sequence field is the low 16
  bits of the firmware's count of 300002 blocks.
\<close>

definition extra_blocks :: "data_params list" where
  "extra_blocks = [observed (300000, replicate 48 0), observed (300001, replicate 48 0)]"

definition capped_end :: end_params where
  "capped_end = \<lparr> end1_clock = 5000, end2_clock = 5000, limit_count = 0,
                   end_sequence = word_of_int 300002 \<rparr>"

text \<open>
  The calibration, seen from one run of \<^verbatim>\<open>_offset_axes\<close>: the samples it
  obtains (\<^verbatim>\<open>finish_measurements\<close>, then \<^verbatim>\<open>decode_samples\<close>, every cell
  read), and what it computes from them in the float operations of the code:
  the per-axis mean \<^verbatim>\<open>sum([...]) / len(samples)\<close>, the magnitude of the mean
  vector, the per-axis peak deviation from the mean, and the noise level, the
  largest of the three peaks.
\<close>

definition measured ::
  "endstop_wrapper \<Rightarrow> real \<Rightarrow> end_params \<Rightarrow> error + (adxl345 \<times> accel_measurement list)" where
  "measured self ft ps =
     bind_res (finish_measurements (adxl345 self) ft ps) (\<lambda>(a1, res).
     bind_res (decode_samples res) (\<lambda>(res1, cs).
     bind_res (cells cs) (\<lambda>ms. Inr (a1, ms))))"

definition mean_axis ::
  "float_arith \<Rightarrow> (accel_measurement \<Rightarrow> real) \<Rightarrow> accel_measurement list \<Rightarrow> real" where
  "mean_axis fa f ms = fl_div fa (foldl (fl_add fa) 0 (map f ms)) (real (length ms))"

definition meas_of :: "float_arith \<Rightarrow> accel_measurement list \<Rightarrow> real" where
  "meas_of fa ms =
     fl_sqrt fa (fl_add fa (fl_add fa (fl_sq fa (mean_axis fa accel_x ms))
                                     (fl_sq fa (mean_axis fa accel_y ms)))
                   (fl_sq fa (mean_axis fa accel_z ms)))"

definition peak_deviation ::
  "float_arith \<Rightarrow> (accel_measurement \<Rightarrow> real) \<Rightarrow> accel_measurement list \<Rightarrow> real" where
  "peak_deviation fa f ms = Max ((\<lambda>s. \<bar>fl_sub fa (f s) (mean_axis fa f ms)\<bar>) ` set ms)"

definition accel_noise_of :: "float_arith \<Rightarrow> accel_measurement list \<Rightarrow> real" where
  "accel_noise_of fa ms =
     max (max (peak_deviation fa accel_x ms) (peak_deviation fa accel_y ms))
         (peak_deviation fa accel_z ms)"

text \<open>
  Out of tolerance: the magnitude of the mean vector differs from standard
  gravity by more than half of standard gravity, or the peak deviation of an
  axis exceeds the tap threshold.
\<close>

definition out_of_tolerance :: "float_arith \<Rightarrow> real \<Rightarrow> accel_measurement list \<Rightarrow> bool" where
  "out_of_tolerance fa thresh ms \<longleftrightarrow>
     fl_mul fa FREEFALL_ACCEL 0.5 < \<bar>fl_sub fa (meas_of fa ms) FREEFALL_ACCEL\<bar>
     \<or> thresh < peak_deviation fa accel_x ms
     \<or> thresh < peak_deviation fa accel_y ms
     \<or> thresh < peak_deviation fa accel_z ms"

text \<open>
  The offset of an axis as the specification has it,
  \<^verbatim>\<open>round(-mean / axisScale * (decodeScale / registerScale))\<close>, in the float
  operations of the code, and the bus traffic of the offset loop to compare the
  code with: for each (offset, axis) pair the byte sent to the axis's offset
  register and the transfer that reads it back.
\<close>

definition rounded_offset :: "float_arith \<Rightarrow> real \<Rightarrow> real \<Rightarrow> int" where
  "rounded_offset fa mean axis_scale =
     fl_round fa (fl_mul fa (fl_div fa (- mean) axis_scale) (fl_div fa SCALE OFS_SCALE))"

definition offset_writes :: "float_arith \<Rightarrow> (real \<times> (nat \<times> real)) list \<Rightarrow> io_event list" where
  "offset_writes fa xs =
     concat (map (\<lambda>(ofs, (pos, sc)).
        [SpiSend (ofs_regs ! pos) (rounded_offset fa ofs sc mod 256) 0,
         SpiTransfer (ofs_regs ! pos OR REG_MOD_READ)]) xs)"

text \<open>
  An axes map as \<^verbatim>\<open>read_axes_map\<close> builds it: source indices 0, 1 and 2 and
  scales that are not zero.
\<close>

definition valid_axes_map :: "axes_map \<Rightarrow> bool" where
  "valid_axes_map am \<longleftrightarrow>
     (case am of ((x_pos, x_scale), (y_pos, y_scale), (z_pos, z_scale)) \<Rightarrow>
        x_pos < 3 \<and> y_pos < 3 \<and> z_pos < 3 \<and> x_scale \<noteq> 0 \<and> y_scale \<noteq> 0 \<and> z_scale \<noteq> 0)"

text \<open>
  A probe on which \<^verbatim>\<open>calibrate\<close> raises nothing: the chip answers with its
  device id, the data rate is one of the table, and the configured interrupt
  map, tap threshold and tap duration fit a register.
\<close>

definition probe_ready :: "float_arith \<Rightarrow> endstop_wrapper \<Rightarrow> bool" where
  "probe_ready fa self \<longleftrightarrow>
     regs (adxl345 self) REG_DEVID = ADXL345_DEV_ID
     \<and> QUERY_RATES (data_rate (adxl345 self)) \<noteq> None
     \<and> 0 \<le> int_map self \<and> int_map self \<le> 255
     \<and> 0 \<le> py_int (fl_div fa (tap_thresh self) TAP_SCALE)
     \<and> py_int (fl_div fa (tap_thresh self) TAP_SCALE) \<le> 255
     \<and> 0 \<le> py_int (fl_div fa (tap_dur self) DUR_SCALE)
     \<and> py_int (fl_div fa (tap_dur self) DUR_SCALE) \<le> 255"

text \<open>What a register write leaves as it was.\<close>

definition same_chip :: "adxl345 \<Rightarrow> adxl345 \<Rightarrow> bool" where
  "same_chip a a' \<longleftrightarrow>
     query_rate a' = query_rate a \<and> data_rate a' = data_rate a
     \<and> adxl_axes_map a' = adxl_axes_map a \<and> mcu a' = mcu a
     \<and> regs a' REG_DEVID = regs a REG_DEVID"

text \<open>
  Persistently out-of-tolerance input: every callback that runs obtains samples
  that are out of tolerance.
\<close>

fun persistently_out :: "float_arith \<Rightarrow> endstop_wrapper \<Rightarrow> int \<Rightarrow> attempt list \<Rightarrow> bool" where
  "persistently_out fa self retries [] = True"
| "persistently_out fa self retries (att # rest) =
     (let self0 = self\<lparr> adxl345 := deliver (adxl345 self) att \<rparr>
      in (case measured self0 (finish_time att) (end_msg att) of
            Inl _ \<Rightarrow> False
          | Inr (a1, ms) \<Rightarrow> out_of_tolerance fa (tap_thresh self0) ms)
         \<and> (case offset_axes fa self0 retries (finish_time att) (end_msg att) (restart_time att) of
               Inr (self1, Rescheduled r) \<Rightarrow> persistently_out fa self1 r rest
             | _ \<Rightarrow> True))"

text \<open>
  Example inputs for the calibration. The operations of the example are those
  of exact arithmetic on the reals. The probe is a fresh wrapper
  (\<^verbatim>\<open>ADXL345EndstopWrapper.__init__\<close>: not calibrated) with the default
  threshold and duration on the example chip. In both attempts the firmware
  delivers one block of one sample and the session ends after one block: a
  sensor in free fall reads zero on every axis, a sensor at rest reads 256
  counts (0.9984 of standard gravity) on the third axis.
\<close>

definition exact_arith :: float_arith where
  "exact_arith = \<lparr> fl_add = (+), fl_sub = (-), fl_mul = (*), fl_div = (/),
                    fl_sq = (\<lambda>v. v\<^sup>2), fl_sqrt = sqrt, fl_round = py_round \<rparr>"

definition example_probe :: endstop_wrapper where
  "example_probe = \<lparr> calibrated = False, adxl345 = example_adxl345,
                      w_axes_map = example_axes_map, inverted = False, int_map = 0,
                      tap_thresh = 5000, tap_dur = 0.01, messages = [] \<rparr>"

definition freefall_attempt :: attempt where
  "freefall_attempt =
     \<lparr> start_msg = None, blocks = [\<lparr> sequence = 0, data = [0, 0, 0, 0, 0, 0] \<rparr>],
       finish_time = 1,
       end_msg = \<lparr> end1_clock = 1000, end2_clock = 1000, limit_count = 0, end_sequence = 1 \<rparr>,
       restart_time = 1 \<rparr>"

definition level_attempt :: attempt where
  "level_attempt =
     \<lparr> start_msg = None, blocks = [\<lparr> sequence = 0, data = [0, 0, 0, 0, 0, 1] \<rparr>],
       finish_time = 1,
       end_msg = \<lparr> end1_clock = 1000, end2_clock = 1000, limit_count = 0, end_sequence = 1 \<rparr>,
       restart_time = 1 \<rparr>"

text \<open>A session that \<^verbatim>\<open>calibrate\<close> has just started on the example chip.\<close>

definition session_armed :: "endstop_wrapper \<Rightarrow> bool" where
  "session_armed w \<longleftrightarrow>
     0 < query_rate (adxl345 w) \<and> adxl_raw_samples (adxl345 w) = []
     \<and> last_sequence (adxl345 w) = 0 \<and> adxl_axes_map (adxl345 w) = example_axes_map"

section \<open>Properties\<close>

subsection \<open>Sequence extension\<close>

lemma and_not_mask16:
  "(l::int) AND NOT 0xffff = (l div 65536) * 65536"
proof -
  have "(0xffff::int) = mask 16" by (simp add: mask_eq_exp_minus_1)
  then have "l AND NOT 0xffff = l AND NOT (mask 16)" by simp
  also have "\<dots> = push_bit 16 (drop_bit 16 l)"
    by (rule bit_eqI) (auto simp: bit_simps)
  also have "\<dots> = (l div 65536) * 65536"
    by (simp add: push_bit_eq_mult drop_bit_eq_div)
  finally show ?thesis .
qed

lemma extend_or_add:
  assumes "0 \<le> s" "s < 65536"
  shows "((l::int) AND NOT 0xffff) OR s = (l div 65536) * 65536 + s"
proof -
  have m: "(0xffff::int) = mask 16" by (simp add: mask_eq_exp_minus_1)
  have s: "take_bit 16 s = s" using assms by (simp add: take_bit_int_eq_self)
  have "(l AND NOT (mask 16)) AND take_bit 16 s = 0"
    by (rule bit_eqI) (auto simp: bit_simps)
  then have "(l AND NOT (mask 16)) + s = (l AND NOT (mask 16)) OR s"
    using disjunctive_add_eq_or[of "l AND NOT (mask 16)" s] s by simp
  then show ?thesis using and_not_mask16[of l] m by simp
qed

lemma extend_or_add_neg:
  "0 \<le> s \<Longrightarrow> s < 65536 \<Longrightarrow> ((l::int) AND - 65536) OR s = (l div 65536) * 65536 + s"
  using extend_or_add[of s l] by simp

lemma uint16_bounds: "0 \<le> uint (w :: 16 word)" "uint (w :: 16 word) < 65536"
  using uint_lt2p[of w] by simp_all

lemma convert_sequence_arith:
  "convert_sequence self sq =
     (let c = (last_sequence self div 65536) * 65536 + uint sq
      in if c < last_sequence self then c + 65536 else c)"
  by (simp add: convert_sequence_def Let_def extend_or_add_neg uint16_bounds)


lemma handle_last_sequence:
  "last_sequence (handle_adxl345_data self params) = convert_sequence self (sequence params)"
  by (simp add: handle_adxl345_data_def convert_sequence_def Let_def)

lemma extend_arith_ge:
  fixes l s :: int
  assumes "0 \<le> s" "s < 65536"
  shows "l \<le> (let c = (l div 65536) * 65536 + s in if c < l then c + 65536 else c)"
proof -
  define q where "q = l div 65536"
  define m where "m = l mod 65536"
  have "l = q * 65536 + m" "0 \<le> m" "m < 65536" by (simp_all add: q_def m_def)
  then show ?thesis unfolding Let_def q_def[symmetric] using assms by auto
qed

lemma extend_arith_recovers:
  fixes l t :: int
  assumes "l \<le> t" "t < l + 65536"
  shows "(let c = (l div 65536) * 65536 + t mod 65536 in if c < l then c + 65536 else c) = t"
proof -
  define q where "q = l div 65536"
  define m where "m = l mod 65536"
  define k where "k = t div 65536"
  define r where "r = t mod 65536"
  have l: "l = q * 65536 + m" "0 \<le> m" "m < 65536" by (simp_all add: q_def m_def)
  have t: "t = k * 65536 + r" "0 \<le> r" "r < 65536" by (simp_all add: k_def r_def)
  have "q \<le> k" unfolding q_def k_def using assms(1) by (simp add: zdiv_mono1)
  moreover have "k \<le> q + 1"
  proof -
    have "t div 65536 \<le> (l + 65536) div 65536" using assms(2) by (simp add: zdiv_mono1)
    then show ?thesis by (simp add: q_def k_def)
  qed
  ultimately consider "k = q" | "k = q + 1" by linarith
  then show ?thesis
  proof cases
    case 1
    then show ?thesis unfolding Let_def q_def[symmetric] r_def[symmetric]
      using l t assms by auto
  next
    case 2
    then show ?thesis unfolding Let_def q_def[symmetric] r_def[symmetric]
      using l t assms by auto
  qed
qed

lemma convert_sequence_ge: "last_sequence self \<le> convert_sequence self sq"
  unfolding convert_sequence_arith using extend_arith_ge[OF uint16_bounds] .

lemma convert_sequence_recovers:
  assumes "last_sequence self \<le> t" "t < last_sequence self + 65536"
  shows "convert_sequence self (word_of_int t) = t"
proof -
  have u: "uint (word_of_int t :: 16 word) = t mod 65536"
    by (simp add: uint_word_of_int take_bit_eq_mod)
  show ?thesis
    unfolding convert_sequence_arith u using extend_arith_recovers[OF assms] .
qed

lemma fold_recovers:
  "within_wrap_period (last_sequence self) (map fst bs) \<Longrightarrow>
   last_sequence (foldl handle_adxl345_data self (map observed bs))
     = last (last_sequence self # map fst bs)"
proof (induction bs arbitrary: self)
  case Nil
  then show ?case by simp
next
  case (Cons b bs)
  let ?s = "handle_adxl345_data self (observed b)"
  have s: "last_sequence ?s = fst b"
    using Cons.prems by (simp add: handle_last_sequence observed_def convert_sequence_recovers)
  have "within_wrap_period (last_sequence ?s) (map fst bs)" using Cons.prems s by simp
  from Cons.IH[OF this] show ?case using s by simp
qed

lemma example_last: "last_sequence example_adxl345 = 0"
  by (simp add: example_adxl345_def ADXL345_init_def)

text \<open>
  C1, as amended. The extension step of \<^verbatim>\<open>_handle_adxl345_data\<close> and of
  \<^verbatim>\<open>_convert_sequence\<close> never yields less than the last count, whatever is
  observed. When every true block count is at least the previous one and less
  than 65536 above it, feeding the 16-bit observations of the true counts, one
  after the other, leaves \<^verbatim>\<open>last_sequence\<close> equal to the last true count (and so,
  applied to each prefix, equal to the true count after every update).
\<close>

theorem sequence_extension:
  "last_sequence self \<le> last_sequence (handle_adxl345_data self params)
   \<and> last_sequence self \<le> convert_sequence self sq
   \<and> (within_wrap_period (last_sequence self) (map fst bs) \<longrightarrow>
        last_sequence (foldl handle_adxl345_data self (map observed bs))
          = last (last_sequence self # map fst bs))
   \<and> (last_sequence self \<le> t \<and> t < last_sequence self + 65536 \<longrightarrow>
        convert_sequence self (word_of_int t) = t)"
  by (simp add: handle_last_sequence convert_sequence_ge fold_recovers convert_sequence_recovers)

theorem sequence_extension_witness:
  "within_wrap_period (last_sequence example_adxl345)
     (map fst [(65535, []), (65536, [0, 0, 0, 0, 0, 1]), (131071, [])])
   \<and> last_sequence (foldl handle_adxl345_data example_adxl345
         (map observed [(65535, []), (65536, [0, 0, 0, 0, 0, 1]), (131071, [])])) = 131071
   \<and> last_sequence example_adxl345 \<le> 65535 \<and> 65535 < last_sequence example_adxl345 + 65536
   \<and> convert_sequence example_adxl345 (word_of_int 65535) = 65535"
  using sequence_extension [of example_adxl345 "observed (0, [])" 0
      "[(65535, []), (65536, [0, 0, 0, 0, 0, 1]), (131071, [])]" 65535]
  by (simp add: example_last)

text \<open>
  C1 as stated fails: from a count of 0 to a true count of 65536 the 16-bit
  counter wraps exactly once, and the gap is one wrap period, not more; the
  observation is 0 again and the extended count stays 0.
\<close>

theorem one_wraparound_counterexample:
  "(65536::int) div 65536 - last_sequence example_adxl345 div 65536 = 1
   \<and> 65536 - last_sequence example_adxl345 \<le> 65536
   \<and> last_sequence (handle_adxl345_data example_adxl345 (observed (65536, []))) \<noteq> 65536"
  by (simp add: example_last handle_last_sequence convert_sequence_arith observed_def)

subsection \<open>The block buffer below and at its cap\<close>

lemma handle_raw_length:
  "length (adxl_raw_samples self) \<le> 300000 \<Longrightarrow>
   length (adxl_raw_samples (handle_adxl345_data self p)) \<le> 300000"
  by (simp add: handle_adxl345_data_def Let_def)

lemma handle_full:
  "300000 \<le> length (adxl_raw_samples self) \<Longrightarrow>
   handle_adxl345_data self p = self\<lparr> last_sequence := convert_sequence self (sequence p) \<rparr>"
  by (simp add: handle_adxl345_data_def convert_sequence_def Let_def)

lemma fold_raw_length:
  "length (adxl_raw_samples self) \<le> 300000 \<Longrightarrow>
   length (adxl_raw_samples (foldl handle_adxl345_data self ps)) \<le> 300000"
  by (induction ps arbitrary: self) (simp_all add: handle_raw_length)

lemma fold_full:
  "300000 \<le> length (adxl_raw_samples self) \<Longrightarrow>
   adxl_raw_samples (foldl handle_adxl345_data self ps) = adxl_raw_samples self"
proof (induction ps arbitrary: self)
  case Nil
  then show ?case by simp
next
  case (Cons p ps)
  have "adxl_raw_samples (handle_adxl345_data self p) = adxl_raw_samples self"
    using Cons.prems by (simp add: handle_full)
  with Cons show ?case by simp
qed

lemma full_length: "length (adxl_raw_samples full_adxl345) = 300000"
  by (simp add: full_adxl345_def)

subsection \<open>Start while measuring, finish while idle\<close>

lemma start_measuring:
  "is_measuring self \<Longrightarrow> start_measurements self rate pt = Inr self"
  by (simp add: start_measurements_def)

lemma finish_idle:
  "\<not> is_measuring self \<Longrightarrow> finish_measurements self pt ps = Inr (self, ADXL345Results_init)"
  by (simp add: finish_measurements_def)

lemma decode_empty: "decode_samples ADXL345Results_init = Inr (ADXL345Results_init, [])"
  by (simp add: decode_samples_def ADXL345Results_init_def)

text \<open>
  C8. \<^verbatim>\<open>start_measurements\<close> on a measuring session returns at once and
  leaves the whole state as it was: buffer, sequence state, anchors, rate, and
  the log of bus and firmware traffic. \<^verbatim>\<open>finish_measurements\<close> on an idle
  session leaves the state, the log included, as it was and returns a fresh
  result: no samples (also after decoding), no drops, no overflows, and zero
  timing statistics.
\<close>

theorem start_finish_idempotent:
  "(is_measuring self \<longrightarrow> start_measurements self rate print_time = Inr self)
   \<and> (\<not> is_measuring self \<longrightarrow>
         finish_measurements self print_time params = Inr (self, ADXL345Results_init))
   \<and> decode_samples ADXL345Results_init = Inr (ADXL345Results_init, [])
   \<and> samples ADXL345Results_init = []
   \<and> drops ADXL345Results_init = 0
   \<and> overflows ADXL345Results_init = 0
   \<and> time_per_sample ADXL345Results_init = 0
   \<and> start_range ADXL345Results_init = 0
   \<and> end_range ADXL345Results_init = 0"
  by (simp add: start_measuring finish_idle decode_empty) (simp add: ADXL345Results_init_def)

theorem start_finish_idempotent_witness:
  "is_measuring full_adxl345
   \<and> start_measurements full_adxl345 (Some 1600) 2 = Inr full_adxl345
   \<and> \<not> is_measuring example_adxl345
   \<and> finish_measurements example_adxl345 2
        \<lparr> end1_clock = 10, end2_clock = 11, limit_count = 0, end_sequence = 7 \<rparr>
       = Inr (example_adxl345, ADXL345Results_init)"
  using start_finish_idempotent [of full_adxl345 "Some 1600" 2]
    start_finish_idempotent [of example_adxl345 None 2
      "\<lparr> end1_clock = 10, end2_clock = 11, limit_count = 0, end_sequence = 7 \<rparr>"]
  by (simp add: is_measuring_def full_adxl345_def example_adxl345_def ADXL345_init_def)

subsection \<open>The interval decoder and its closed form\<close>

lemma received_count_Nil [simp]: "received_count [] = 0"
  by (simp add: received_count_def)

lemma received_count_Cons [simp]:
  "received_count (b # bs) = int (length (snd b)) div 6 + received_count bs"
  by (cases b) (simp add: received_count_def)

lemma received_count_append [simp]:
  "received_count (xs @ ys) = received_count xs + received_count ys"
  by (induction xs) simp_all

lemma received_count_nonneg: "0 \<le> received_count raw"
  by (induction raw) simp_all

text \<open>In a strictly increasing list of non-negative integers the last entry bounds the length.\<close>

lemma length_le_last:
  fixes xs :: "int list"
  assumes "sorted_wrt (<) xs" "\<forall>x \<in> set xs. 0 \<le> x" "xs \<noteq> []"
  shows "int (length xs) \<le> last xs + 1"
  using assms
proof (induction xs rule: rev_induct)
  case Nil
  then show ?case by simp
next
  case (snoc x xs)
  show ?case
  proof (cases "xs = []")
    case True
    with snoc.prems show ?thesis by simp
  next
    case False
    from snoc.prems have "sorted_wrt (<) xs" "\<forall>y \<in> set xs. 0 \<le> y"
      by (simp_all add: sorted_wrt_append)
    with snoc.IH False have "int (length xs) \<le> last xs + 1" by simp
    moreover have "last xs < x"
      using snoc.prems(1) False by (simp add: sorted_wrt_append)
    ultimately show ?thesis by simp
  qed
qed

lemma received_le_blocks:
  assumes "\<forall>b \<in> set raw. length (snd b) div 6 \<le> 8"
  shows "received_count raw \<le> 8 * int (length raw)"
  using assms
proof (induction raw)
  case Nil
  then show ?case by simp
next
  case (Cons b bs)
  then have "int (length (snd b)) div 6 \<le> 8"
    by (metis list.set_intros(1) of_nat_le_iff of_nat_numeral zdiv_int) 
  with Cons show ?case by simp
qed

lemma drops_nonneg:
  assumes "well_formed_session raw e" "raw \<noteq> []"
  shows "received_count raw \<le> expected_total raw e"
proof -
  obtain bs b where raw: "raw = bs @ [b]"
    using assms(2) by (metis append_butlast_last_id)
  have wf: "sorted_wrt (<) (map fst raw)" "\<forall>x \<in> set (map fst raw). 0 \<le> x"
    "\<forall>b \<in> set raw. length (snd b) div 6 \<le> 8" "fst (last raw) < e"
    using assms by (auto simp: well_formed_session_def)
  have "int (length (map fst raw)) \<le> last (map fst raw) + 1"
    using length_le_last[OF wf(1) wf(2)] assms(2) by simp
  then have len: "int (length raw) \<le> e"
    using wf(4) assms(2) by (simp add: last_map)
  have "received_count bs \<le> 8 * int (length bs)"
    using wf(3) raw by (intro received_le_blocks) simp
  also have "\<dots> \<le> 8 * (e - 1)" using len raw by simp
  finally show ?thesis
    by (simp add: raw expected_total_def)
qed

lemma bind_res_Inr [simp]: "bind_res (Inr x) f = f x"
  by (simp add: bind_res_def)

lemma bind_res_Inl [simp]: "bind_res (Inl e) f = Inl e"
  by (simp add: bind_res_def)

lemma py_index_cases:
  "py_index xs k = Inl IndexError \<or> (k < length xs \<and> py_index xs k = Inr (xs ! k))"
  by (simp add: py_index_def)

lemma decode_sample_cases:
  "decode_sample am sd st tps i = Inl IndexError
   \<or> decode_sample am sd st tps i = Inr (sample_of am sd st tps i)"
proof -
  obtain xp xs yp ys zp zs where am: "am = ((xp, xs), (yp, ys), (zp, zs))"
    by (metis prod.exhaust)
  show ?thesis
    using py_index_cases[of sd "i * 3 + xp"] py_index_cases[of sd "i * 3 + yp"]
      py_index_cases[of sd "i * 3 + zp"]
    by (auto simp: am decode_sample_def sample_of_def Let_def)
qed

lemma decode_sample_valid:
  assumes "valid_positions am" "(i + 1) * 3 \<le> length sd"
  shows "decode_sample am sd st tps i = Inr (sample_of am sd st tps i)"
proof -
  obtain xp xs yp ys zp zs where am: "am = ((xp, xs), (yp, ys), (zp, zs))"
    by (metis prod.exhaust)
  show ?thesis using assms
    by (simp add: am decode_sample_def sample_of_def valid_positions_def py_index_def Let_def)
qed

lemma decode_sample_sample_of:
  "decode_sample am sd st tps i = Inr m \<Longrightarrow> sample_of am sd st tps i = m"
  using decode_sample_cases[of am sd st tps i] by auto

lemma update_segment:
  assumes "n < length arr"
  shows "take (Suc n) (arr[n := x]) = take n arr @ [x]"
    and "drop (Suc n + k) (arr[n := x]) = drop (Suc n + k) arr"
  using assms by (simp_all add: take_Suc_conv_app_nth)

text \<open>
  The inner loop, in one equation: it returns exactly when every sample of the
  block decodes and the block fits into the array, and then it has stored the
  samples in their order behind the first \<open>n\<close> cells.
\<close>

lemma decode_inner_eq:
  "n \<le> length arr \<Longrightarrow>
   decode_inner am sd st tps js (arr, n) =
     (if (\<forall>j \<in> set js. \<exists>m. decode_sample am sd st tps j = Inr m)
         \<and> n + length js \<le> length arr
      then Inr (take n arr @ map (\<lambda>j. Some (sample_of am sd st tps j)) js
                  @ drop (n + length js) arr, n + length js)
      else Inl IndexError)"
proof (induction js arbitrary: arr n)
  case Nil
  then show ?case by simp
next
  case (Cons j js)
  consider (err) "decode_sample am sd st tps j = Inl IndexError"
    | (ok) m where "decode_sample am sd st tps j = Inr m"
    using decode_sample_cases[of am sd st tps j] by blast
  then show ?case
  proof cases
    case err
    then show ?thesis by auto
  next
    case ok
    show ?thesis
    proof (cases "n < length arr")
      case False
      with ok show ?thesis by simp
    next
      case True
      let ?arr = "arr[n := Some m]"
      have len: "Suc n \<le> length ?arr" using True by simp
      note ih = Cons.IH[OF len]
      have so: "sample_of am sd st tps j = m" using ok by (rule decode_sample_sample_of)
      show ?thesis
        using ok True so update_segment[OF True, where x = "Some m"]
        by (simp add: ih)
    qed
  qed
qed

lemma length_block_samples [simp]:
  "length (block_samples am start2 s2t tps b) = length (snd b) div 6"
  by (simp add: block_samples_def)

lemma segment_take:
  "n \<le> length arr \<Longrightarrow> take (n + length xs) (take n arr @ xs @ ys) = take n arr @ xs"
  by simp

lemma segment_drop:
  "n + length xs \<le> length arr \<Longrightarrow>
   drop (n + length xs + k) (take n arr @ xs @ drop (n + length xs) arr)
     = drop (n + length xs + k) arr"
  by (simp add: min_absorb2 ac_simps)

lemma segment_length:
  "n + length xs \<le> length arr \<Longrightarrow>
   length (take n arr @ xs @ drop (n + length xs) arr) = length arr"
  by (simp add: min_absorb2)

text \<open>The same for the outer loop.\<close>

lemma decode_outer_eq:
  "n \<le> length arr \<Longrightarrow>
   decode_outer am start2 s2t tps raw (arr, n) =
     (if (\<forall>b \<in> set raw. decodable am start2 s2t tps b)
         \<and> n + length (concat (map (block_samples am start2 s2t tps) raw)) \<le> length arr
      then Inr (take n arr
                  @ map Some (concat (map (block_samples am start2 s2t tps) raw))
                  @ drop (n + length (concat (map (block_samples am start2 s2t tps) raw))) arr,
                n + length (concat (map (block_samples am start2 s2t tps) raw)))
      else Inl IndexError)"
proof (induction raw arbitrary: arr n)
  case Nil
  then show ?case by simp
next
  case (Cons b raw)
  obtain sq d where b: "b = (sq, d)" by (cases b)
  let ?st = "start2 + of_int sq * s2t"
  let ?k = "length d div 6"
  let ?xs = "map (\<lambda>j. Some (sample_of am (sdata d) ?st tps j)) [0..<?k]"
  have inner: "decode_inner am (sdata d) ?st tps [0..<?k] (arr, n) =
     (if decodable am start2 s2t tps b \<and> n + ?k \<le> length arr
      then Inr (take n arr @ ?xs @ drop (n + ?k) arr, n + ?k)
      else Inl IndexError)"
    using Cons.prems by (simp add: decode_inner_eq decodable_def b)
  show ?case
  proof (cases "decodable am start2 s2t tps b \<and> n + ?k \<le> length arr")
    case False
    then show ?thesis using inner by (auto simp: b Let_def)
  next
    case True
    let ?arr = "take n arr @ ?xs @ drop (n + ?k) arr"
    have lx: "length ?xs = ?k" by simp
    have len: "length ?arr = length arr"
      using True segment_length[of n ?xs arr] by simp
    have n1: "n + ?k \<le> length ?arr" using True len by simp
    let ?rest = "concat (map (block_samples am start2 s2t tps) raw)"
    have tk: "take (n + ?k) ?arr = take n arr @ ?xs"
      using Cons.prems segment_take[of n arr ?xs "drop (n + ?k) arr"] by simp
    have dr: "drop (n + ?k + length ?rest) ?arr = drop (n + ?k + length ?rest) arr"
      using True segment_drop[of n ?xs arr "length ?rest"] by simp
    have bs: "block_samples am start2 s2t tps b = map (sample_of am (sdata d) ?st tps) [0..<?k]"
      by (simp add: block_samples_def b)
    have "decode_outer am start2 s2t tps (b # raw) (arr, n)
            = decode_outer am start2 s2t tps raw (?arr, n + ?k)"
      using True inner by (simp add: b Let_def)
    also have "\<dots> =
       (if (\<forall>b \<in> set raw. decodable am start2 s2t tps b)
           \<and> n + ?k + length ?rest \<le> length ?arr
        then Inr (take (n + ?k) ?arr @ map Some ?rest @ drop (n + ?k + length ?rest) ?arr,
                  n + ?k + length ?rest)
        else Inl IndexError)"
      by (rule Cons.IH[OF n1])
    also have "\<dots> =
       (if (\<forall>b \<in> set raw. decodable am start2 s2t tps b)
           \<and> n + ?k + length ?rest \<le> length arr
        then Inr (take n arr @ ?xs @ map Some ?rest @ drop (n + ?k + length ?rest) arr,
                  n + ?k + length ?rest)
        else Inl IndexError)"
      by (simp only: tk dr len append_assoc)
    finally show ?thesis
      using True by (simp add: bs add.assoc)
  qed
qed

lemma length_sdata [simp]: "length (sdata d) = length d div 2"
  by (simp add: sdata_def)

lemma decodable_valid:
  assumes "valid_positions am"
  shows "decodable am start2 s2t tps b"
  unfolding decodable_def
proof (intro allI impI)
  fix i assume "i < length (snd b) div 6"
  then have "(i + 1) * 6 \<le> length (snd b)" by simp
  then have "(i + 1) * 3 \<le> length (sdata (snd b))" by simp
  from decode_sample_valid[OF assms this]
  show "\<exists>m. decode_sample am (sdata (snd b)) (start2 + of_int (fst b) * s2t) tps i = Inr m"
    by blast
qed

lemma length_all_samples:
  "int (length (concat (map (block_samples am start2 s2t tps) raw))) = received_count raw"
  by (induction raw) (simp_all add: zdiv_int)

lemma setup_data_cases:
  "setup_data ADXL345Results_init am raw e ovf s1 s2 e1 e2 =
     (if raw = [] \<or> e = 0 then Inr ADXL345Results_init
      else if expected_total raw e = 0 then Inl ZeroDivisionError
      else Inr (ADXL345Results_init\<lparr> axes_map := Some am,
                            raw_samples := Some raw,
                            overflows := ovf,
                            start2_time := Some s2,
                            start_range := s2 - s1,
                            end_range := e2 - e1,
                            total_count := Some (expected_total raw e),
                            time_per_sample := (e2 - s2) / of_int (expected_total raw e),
                            seq_to_time := Some ((e2 - s2) / of_int (expected_total raw e) * 8),
                            drops := expected_total raw e - received_count raw \<rparr>))"
  by (simp add: setup_data_def Let_def)

lemma init_fields:
  "raw_samples ADXL345Results_init = None" "samples ADXL345Results_init = []"
  "drops ADXL345Results_init = 0" "overflows ADXL345Results_init = 0"
  "time_per_sample ADXL345Results_init = 0" "start_range ADXL345Results_init = 0"
  "end_range ADXL345Results_init = 0" "total_count ADXL345Results_init = None"
  by (simp_all add: ADXL345Results_init_def)

lemma setup_data_fields:
  assumes "setup_data ADXL345Results_init am raw e ovf s1 s2 e1 e2 = Inr r"
    and "raw_samples r = Some raw'"
  shows "raw' = raw" "raw \<noteq> []" "e \<noteq> 0" "expected_total raw e \<noteq> 0"
    "axes_map r = Some am" "total_count r = Some (expected_total raw e)"
    "start2_time r = Some s2"
    "time_per_sample r = (e2 - s2) / of_int (expected_total raw e)"
    "seq_to_time r = Some ((e2 - s2) / of_int (expected_total raw e) * 8)"
    "drops r = expected_total raw e - received_count raw"
    "samples r = []"
  using assms
  by (auto simp: setup_data_def Let_def ADXL345Results_init_def split: if_splits)

text \<open>
  \<^verbatim>\<open>decode_samples\<close> on a result that \<^verbatim>\<open>setup_data\<close> has filled: either the
  samples of the closed form, or IndexError.
\<close>

lemma decode_samples_eq:
  assumes "setup_data ADXL345Results_init am raw e ovf s1 s2 e1 e2 = Inr r"
    and "raw_samples r = Some raw"
  shows "decode_samples r =
     (if (\<forall>b \<in> set raw. decodable am s2 (time_per_sample r * 8) (time_per_sample r) b)
         \<and> (received_count raw \<le> expected_total raw e \<or> received_count raw = 0)
      then Inr (r\<lparr>samples := map Some (concat (map
                   (block_samples am s2 (time_per_sample r * 8) (time_per_sample r)) raw))\<rparr>,
                map Some (concat (map
                   (block_samples am s2 (time_per_sample r * 8) (time_per_sample r)) raw)))
      else Inl IndexError)"
proof -
  note f = setup_data_fields[OF assms]
  let ?tps = "time_per_sample r"
  let ?all = "concat (map (block_samples am s2 (?tps * 8) ?tps) raw)"
  let ?arr = "replicate (nat (expected_total raw e)) (None :: accel_measurement option)"
  obtain b bs where raw: "raw = b # bs" using f(2) by (cases raw) auto
  have s2t: "seq_to_time r = Some (?tps * 8)" using f(8,9) by simp
  have "int (length ?all) = received_count raw"
    by (rule length_all_samples)
  then have "(length ?all \<le> nat (expected_total raw e))
      = (received_count raw \<le> expected_total raw e \<or> received_count raw = 0)"
    by linarith
  then have bound: "(0 + length ?all \<le> length ?arr)
      = (received_count raw \<le> expected_total raw e \<or> received_count raw = 0)"
    by simp
  have outer: "decode_outer am s2 (?tps * 8) ?tps raw (?arr, 0) =
     (if (\<forall>b \<in> set raw. decodable am s2 (?tps * 8) ?tps b)
         \<and> (received_count raw \<le> expected_total raw e \<or> received_count raw = 0)
      then Inr (map Some ?all @ drop (length ?all) ?arr, length ?all)
      else Inl IndexError)"
    using decode_outer_eq[of 0 ?arr am s2 "?tps * 8" ?tps raw] bound by simp
  have dec: "decode_samples r =
      bind_res (decode_outer am s2 (?tps * 8) ?tps raw (?arr, 0))
        (\<lambda>(arr, actual_count). let out = take actual_count arr
                                in Inr (r\<lparr>samples := out\<rparr>, out))"
    using assms(2) f(5,6,7) s2t by (simp add: decode_samples_def raw)
  show ?thesis unfolding dec outer by (simp add: Let_def)
qed

lemma decode_samples_ok:
  assumes "setup_data ADXL345Results_init am raw e ovf s1 s2 e1 e2 = Inr r"
    and "raw_samples r = Some raw" and "valid_positions am"
    and "received_count raw \<le> expected_total raw e"
  shows "\<exists>ms. decode_samples r = Inr (r\<lparr>samples := map Some ms\<rparr>, map Some ms)
              \<and> int (length ms) = received_count raw"
proof -
  let ?tps = "time_per_sample r"
  have dec: "\<forall>b \<in> set raw. decodable am s2 (?tps * 8) ?tps b"
    using decodable_valid[OF assms(3)] by blast
  show ?thesis
    using decode_samples_eq[OF assms(1,2)] dec assms(4)
      length_all_samples[of am s2 "?tps * 8" ?tps raw]
    by auto
qed

lemma block_ticks_sorted: "sorted_wrt (<) (block_ticks b)"
  by (simp add: block_ticks_def sorted_wrt_map)

lemma block_ticks_bounds:
  assumes "t \<in> set (block_ticks b)" "length (snd b) div 6 \<le> 8"
  shows "8 * fst b \<le> t" "t < 8 * fst b + 8"
  using assms by (auto simp: block_ticks_def)

lemma ticks_sorted:
  assumes "sorted_wrt (<) (map fst raw)" "\<forall>b \<in> set raw. length (snd b) div 6 \<le> 8"
  shows "sorted_wrt (<) (concat (map block_ticks raw))"
  using assms
proof (induction raw)
  case Nil
  then show ?case by simp
next
  case (Cons b raw)
  have later: "t < u" if "t \<in> set (block_ticks b)" "u \<in> set (concat (map block_ticks raw))"
    for t u
  proof -
    from that(2) obtain c where c: "c \<in> set raw" "u \<in> set (block_ticks c)" by auto
    have "fst b < fst c" using Cons.prems(1) c(1) by auto
    moreover have "t < 8 * fst b + 8" using block_ticks_bounds[OF that(1)] Cons.prems(2) by simp
    moreover have "8 * fst c \<le> u" using block_ticks_bounds[OF c(2)] Cons.prems(2) c(1) by simp
    ultimately show ?thesis by linarith
  qed
  show ?case
    using Cons block_ticks_sorted[of b] later by (simp add: sorted_wrt_append)
qed

lemma block_times:
  "map time (block_samples am s2 (tps * 8) tps b)
     = map (\<lambda>t. s2 + tps * of_int t) (block_ticks b)"
proof -
  have "time (sample_of am sd st tps i) = st + real i * tps" for sd st i
    by (cases am) (auto simp: sample_of_def)
  then show ?thesis
    by (simp add: block_samples_def block_ticks_def algebra_simps)
qed

lemma all_times:
  "map time (concat (map (block_samples am s2 (tps * 8) tps) raw))
     = map (\<lambda>t. s2 + tps * of_int t) (concat (map block_ticks raw))"
  by (induction raw) (simp_all add: block_times)

lemma block_times_formula:
  "map time (block_samples am s2 (tps * 8) tps b)
     = (case b of (sq, d) \<Rightarrow>
          map (\<lambda>i. s2 + of_int sq * 8 * tps + real i * tps) [0..<length d div 6])"
proof -
  have "time (sample_of am sd st tps i) = st + real i * tps" for sd st i
    by (cases am) (auto simp: sample_of_def)
  then show ?thesis
    by (cases b) (simp add: block_samples_def algebra_simps)
qed

lemma all_times_formula:
  "map time (concat (map (block_samples am s2 (tps * 8) tps) raw))
     = concat (map (\<lambda>(sq, d).
          map (\<lambda>i. s2 + of_int sq * 8 * tps + real i * tps) [0..<length d div 6]) raw)"
  by (induction raw) (simp_all add: block_times_formula)

subsection \<open>The example sessions\<close>

lemma example_well_formed: "well_formed_session example_raw 4"
  by (simp add: well_formed_session_def example_raw_def)

lemma example_counts: "expected_total example_raw 4 = 26" "received_count example_raw = 18"
  by (simp_all add: expected_total_def example_raw_def)

lemma example_valid_positions: "valid_positions example_axes_map"
  by (simp add: valid_positions_def example_axes_map_def)

lemma overfull_counts: "expected_total overfull_raw 1 = 8" "received_count overfull_raw = 16"
  by (simp_all add: expected_total_def overfull_raw_def)

lemma full_counts: "expected_total full_raw 2 = 16" "received_count full_raw = 16"
  by (simp_all add: expected_total_def full_raw_def)

lemma example_setup:
  "setup_data ADXL345Results_init example_axes_map example_raw 4 0 0 0 1 1 = Inr example_results"
  by (simp add: setup_data_cases example_counts example_results_def) (simp add: example_raw_def)

lemma overfull_setup:
  "setup_data ADXL345Results_init example_axes_map overfull_raw 1 0 0 0 1 1 = Inr overfull_results"
  by (simp add: setup_data_cases overfull_counts overfull_results_def) (simp add: overfull_raw_def)

lemma full_setup:
  "setup_data ADXL345Results_init example_axes_map full_raw 2 0 0 0 1 1 = Inr full_results"
  by (simp add: setup_data_cases full_counts full_results_def) (simp add: full_raw_def)

lemma example_raw_samples: "raw_samples example_results = Some example_raw"
  by (simp add: example_results_def)

lemma overfull_raw_samples: "raw_samples overfull_results = Some overfull_raw"
  by (simp add: overfull_results_def)

lemma full_raw_samples: "raw_samples full_results = Some full_raw"
  by (simp add: full_results_def)

subsection \<open>Drop accounting\<close>

text \<open>
  C2. For a well-formed finished session \<^verbatim>\<open>setup_data\<close> either returns with a
  drop count that is not negative, and that is the expected total
  \<^verbatim>\<open>(end_sequence - 1) * 8 + len(last payload) // 6\<close> minus the sum of
  \<^verbatim>\<open>len(payload) // 6\<close> over the buffered blocks whenever it got as far as
  computing it; or it raises ZeroDivisionError, which happens only when that
  expected total is 0, and then the received count is 0 as well.
\<close>

theorem drops_nonnegative:
  assumes "well_formed_session raw e"
  shows "case setup_data ADXL345Results_init am raw e ovf s1 s2 e1 e2 of
           Inr r \<Rightarrow> 0 \<le> drops r
                    \<and> (raw_samples r = Some raw \<longrightarrow>
                          drops r = expected_total raw e - received_count raw)
         | Inl err \<Rightarrow> err = ZeroDivisionError \<and> expected_total raw e = 0
                      \<and> received_count raw = 0"
proof (cases "raw = [] \<or> e = 0")
  case True
  then have "setup_data ADXL345Results_init am raw e ovf s1 s2 e1 e2 = Inr ADXL345Results_init"
    by (simp add: setup_data_cases)
  then show ?thesis by (simp add: init_fields)
next
  case False
  then have le: "received_count raw \<le> expected_total raw e"
    using drops_nonneg[OF assms] by simp
  show ?thesis
  proof (cases "expected_total raw e = 0")
    case True
    with le received_count_nonneg[of raw] False show ?thesis
      by (simp add: setup_data_cases)
  next
    case nz: False
    with le False show ?thesis by (simp add: setup_data_cases)
  qed
qed

theorem drops_nonnegative_witness:
  "well_formed_session example_raw 4
   \<and> setup_data ADXL345Results_init example_axes_map example_raw 4 0 0 0 1 1
       = Inr example_results
   \<and> drops example_results = 8"
  using drops_nonnegative [OF example_well_formed, of example_axes_map 0 0 0 1 1]
  by (simp add: example_well_formed example_setup) (simp add: example_results_def)

subsection \<open>Decoding stays inside the preallocated array\<close>



subsection \<open>Time stamps of the interval decoder\<close>

text \<open>
  C5. Let \<^verbatim>\<open>setup_data\<close> have filled a result from a non-empty buffer and let
  \<^verbatim>\<open>decode_samples\<close> return. Then \<^verbatim>\<open>time_per_sample\<close> is
  \<^verbatim>\<open>(end2 - start2) / total_count\<close>, the list returned holds no \<^verbatim>\<open>None\<close>, and
  its time stamps are, block after block and sample after sample,
  \<^verbatim>\<open>start2 + seq * 8 * time_per_sample + i * time_per_sample\<close>. If moreover
  \<^verbatim>\<open>start2 < end2\<close>, the blocks are in strictly increasing sequence order and
  none holds more than 8 samples (as consecutive full blocks do), the time
  stamps are strictly increasing. Floats are reals here.
\<close>

theorem interval_timestamps:
  assumes "setup_data ADXL345Results_init am raw e ovf s1 s2 e1 e2 = Inr r"
    and "raw_samples r = Some raw"
    and "decode_samples r = Inr (r', out)"
  shows "time_per_sample r = (e2 - s2) / of_int (expected_total raw e)
         \<and> (\<exists>ms. out = map Some ms
                \<and> map time ms =
                    concat (map (\<lambda>(sq, d).
                      map (\<lambda>i. s2 + of_int sq * 8 * time_per_sample r
                                  + real i * time_per_sample r)
                        [0..<length d div 6]) raw)
                \<and> (s2 < e2 \<and> sorted_wrt (<) (map fst raw)
                     \<and> (\<forall>b \<in> set raw. length (snd b) div 6 \<le> 8) \<longrightarrow>
                       sorted_wrt (<) (map time ms)))"
proof -
  note f = setup_data_fields[OF assms(1,2)]
  let ?tps = "time_per_sample r"
  let ?all = "concat (map (block_samples am s2 (?tps * 8) ?tps) raw)"
  from assms(3) decode_samples_eq[OF assms(1,2)]
  have out: "out = map Some ?all"
    and bound: "received_count raw \<le> expected_total raw e \<or> received_count raw = 0"
    by (auto split: if_splits)
  have sorted: "sorted_wrt (<) (map time ?all)"
    if h: "s2 < e2" "sorted_wrt (<) (map fst raw)" "\<forall>b \<in> set raw. length (snd b) div 6 \<le> 8"
  proof (cases "length ?all = 0")
    case True
    then have "map time ?all = []" by (simp only: length_0_conv list.map)
    then show ?thesis by (simp only: sorted_wrt.simps)
  next
    case False
    then have "0 < int (length ?all)" by (simp only: of_nat_0_less_iff neq0_conv)
    then have "0 < received_count raw"
      using length_all_samples[of am s2 "?tps * 8" ?tps raw] by simp
    with bound have "0 < expected_total raw e" by linarith
    with h(1) f(8) have pos: "0 < ?tps" by simp
    have "sorted_wrt (<) (concat (map block_ticks raw))"
      using ticks_sorted[OF h(2,3)] .
    then have "sorted_wrt (<) (map (\<lambda>t. s2 + ?tps * of_int t) (concat (map block_ticks raw)))"
      using pos by (simp add: sorted_wrt_map)
    then show ?thesis by (simp add: all_times)
  qed
  show ?thesis
    using f(8) out sorted all_times_formula[of am s2 ?tps raw] by blast
qed

theorem interval_timestamps_witness:
  "\<exists>r' ms.
     setup_data ADXL345Results_init example_axes_map full_raw 2 0 0 0 1 1 = Inr full_results
     \<and> raw_samples full_results = Some full_raw
     \<and> decode_samples full_results = Inr (r', map Some ms)
     \<and> (0::real) < 1
     \<and> sorted_wrt (<) (map fst full_raw)
     \<and> list_all (\<lambda>b. length (snd b) div 6 \<le> 8) full_raw
     \<and> length ms = 16
     \<and> time_per_sample full_results = 1 / 16
     \<and> sorted_wrt (<) (map time ms)"
proof -
  from decode_samples_ok[OF full_setup full_raw_samples example_valid_positions]
  obtain ms where ms:
    "decode_samples full_results = Inr (full_results\<lparr>samples := map Some ms\<rparr>, map Some ms)"
    "int (length ms) = 16"
    by (auto simp: full_counts)
  have h: "sorted_wrt (<) (map fst full_raw)" "\<forall>b \<in> set full_raw. length (snd b) div 6 \<le> 8"
    by (simp_all add: full_raw_def)
  from interval_timestamps [OF full_setup full_raw_samples ms(1)] h
  have "sorted_wrt (<) (map time ms)" by auto
  with ms h show ?thesis
    by (auto simp: full_setup full_raw_samples list_all_iff) (simp add: full_results_def)
qed

subsection \<open>The capacity of the block buffer\<close>

lemma handle_query_rate [simp]:
  "query_rate (handle_adxl345_data self p) = query_rate self"
  by (simp add: handle_adxl345_data_def Let_def)

lemma fold_query_rate [simp]:
  "query_rate (foldl handle_adxl345_data self ps) = query_rate self"
  by (induction ps arbitrary: self) simp_all

lemma handle_below_cap:
  "length (adxl_raw_samples self) < 300000 \<Longrightarrow>
   adxl_raw_samples (handle_adxl345_data self p)
     = adxl_raw_samples self @ [(convert_sequence self (sequence p), data p)]"
  by (simp add: handle_adxl345_data_def convert_sequence_def Let_def)

lemma finish_measuring:
  assumes "is_measuring s"
  shows "finish_measurements s t params =
     bind_res
       (setup_data ADXL345Results_init (adxl_axes_map s) (adxl_raw_samples s)
          (convert_sequence s (end_sequence params)) (uint (limit_count params))
          (samples_start1 s) (samples_start2 s)
          (clock_to_print_time (mcu s) (end1_clock params))
          (clock_to_print_time (mcu s) (end2_clock params)))
       (\<lambda>res. case total_count res of
                None \<Rightarrow> Inl AttributeError
              | Some _ \<Rightarrow>
                  Inr (s\<lparr> io_log := io_log s @ [QueryAdxl345End (print_time_to_clock (mcu s) t)],
                          last_tx_time := t, query_rate := 0, adxl_raw_samples := [] \<rparr>, res))"
  using assms by (simp add: finish_measurements_def Let_def convert_sequence_def)

lemma finish_drops:
  assumes "is_measuring s" "adxl_raw_samples s \<noteq> []"
    and "finish_measurements s t params = Inr (s', r)"
  shows "raw_samples r = Some (adxl_raw_samples s)
         \<and> drops r = expected_total (adxl_raw_samples s) (convert_sequence s (end_sequence params))
                       - received_count (adxl_raw_samples s)"
  using assms(2,3) unfolding finish_measuring[OF assms(1)] setup_data_cases
  by (auto simp: bind_res_def init_fields split: if_splits option.splits)

lemma finish_capped:
  assumes "is_measuring self" "300000 \<le> length (adxl_raw_samples self)"
    and "finish_measurements (foldl handle_adxl345_data self ps) t params = Inr (s', r)"
  shows "raw_samples r = Some (adxl_raw_samples self)
         \<and> drops r = expected_total (adxl_raw_samples self)
                        (convert_sequence (foldl handle_adxl345_data self ps) (end_sequence params))
                       - received_count (adxl_raw_samples self)
         \<and> last_sequence (foldl handle_adxl345_data self ps)
             \<le> convert_sequence (foldl handle_adxl345_data self ps) (end_sequence params)"
proof -
  let ?s = "foldl handle_adxl345_data self ps"
  have raw: "adxl_raw_samples ?s = adxl_raw_samples self"
    using assms(2) by (rule fold_full)
  have m: "is_measuring ?s" using assms(1) by (simp add: is_measuring_def)
  have ne: "adxl_raw_samples ?s \<noteq> []" using raw assms(2) by auto
  from finish_drops[OF m ne assms(3)] raw convert_sequence_ge[of ?s "end_sequence params"]
  show ?thesis by simp
qed

lemma received_count_replicate:
  "received_count (replicate n b) = int n * (int (length (snd b)) div 6)"
  by (induction n) (simp_all add: algebra_simps)

lemma full_measuring: "is_measuring full_adxl345"
  by (simp add: is_measuring_def full_adxl345_def)

lemma full_last: "last_sequence full_adxl345 = 299999"
  by (simp add: full_adxl345_def)

lemma extra_last: "last_sequence (foldl handle_adxl345_data full_adxl345 extra_blocks) = 300001"
proof -
  have "within_wrap_period (last_sequence full_adxl345)
          (map fst [(300000, replicate 48 (0::byte)), (300001, replicate 48 0)])"
    by (simp add: full_last)
  from fold_recovers[OF this] show ?thesis by (simp add: extra_blocks_def)
qed

lemma extra_end:
  "convert_sequence (foldl handle_adxl345_data full_adxl345 extra_blocks)
     (end_sequence capped_end) = 300002"
proof -
  have "convert_sequence (foldl handle_adxl345_data full_adxl345 extra_blocks)
          (word_of_int 300002) = 300002"
    by (rule convert_sequence_recovers) (simp_all add: extra_last)
  then show ?thesis by (simp add: capped_end_def)
qed

lemma full_counts_cap:
  "expected_total (adxl_raw_samples full_adxl345) 300002 = 2400016"
  "received_count (adxl_raw_samples full_adxl345) = 2400000"
  by (simp_all add: full_adxl345_def expected_total_def received_count_replicate)

lemma extra_finish:
  "\<exists>s' r. finish_measurements (foldl handle_adxl345_data full_adxl345 extra_blocks) 2 capped_end
            = Inr (s', r)"
proof -
  let ?s = "foldl handle_adxl345_data full_adxl345 extra_blocks"
  have raw: "adxl_raw_samples ?s = adxl_raw_samples full_adxl345"
    by (rule fold_full) (simp add: full_length)
  have m: "is_measuring ?s" using full_measuring by (simp add: is_measuring_def)
  have ne: "adxl_raw_samples full_adxl345 \<noteq> []" using full_length by auto
  show ?thesis
    unfolding finish_measuring[OF m] setup_data_cases raw extra_end
    using ne by (simp add: full_counts_cap)
qed

text \<open>
  C3. Starting from a buffer of at most 300000 blocks, no sequence of
  \<^verbatim>\<open>adxl345_data\<close> messages makes it longer than 300000. Below the cap a
  message appends its block with the extended sequence number. On a buffer that
  has reached the cap a message changes nothing but the sequence state, which
  advances as for a stored block (there is no error to return), and the buffer
  is the same after any number of messages. The loss shows in the drop count
  only: when a measuring session at the cap is finished after such messages,
  the result holds the buffer as it was at the cap, and its \<^verbatim>\<open>drops\<close> is the
  total expected from the final sequence number, extended from a sequence
  state that the discarded blocks have advanced, minus the samples of the
  buffer.
\<close>

theorem buffer_capacity:
  "(length (adxl_raw_samples self) \<le> 300000 \<longrightarrow>
      length (adxl_raw_samples (foldl handle_adxl345_data self ps)) \<le> 300000)
   \<and> (300000 \<le> length (adxl_raw_samples self) \<longrightarrow>
         handle_adxl345_data self p
           = self\<lparr> last_sequence := convert_sequence self (sequence p) \<rparr>
         \<and> adxl_raw_samples (foldl handle_adxl345_data self ps) = adxl_raw_samples self)
   \<and> last_sequence (handle_adxl345_data self p) = convert_sequence self (sequence p)
   \<and> (length (adxl_raw_samples self) < 300000 \<longrightarrow>
         adxl_raw_samples (handle_adxl345_data self p)
           = adxl_raw_samples self @ [(convert_sequence self (sequence p), data p)])
   \<and> (is_measuring self \<and> 300000 \<le> length (adxl_raw_samples self)
        \<and> finish_measurements (foldl handle_adxl345_data self ps) t params = Inr (s', r) \<longrightarrow>
         raw_samples r = Some (adxl_raw_samples self)
         \<and> drops r = expected_total (adxl_raw_samples self)
                        (convert_sequence (foldl handle_adxl345_data self ps) (end_sequence params))
                       - received_count (adxl_raw_samples self)
         \<and> last_sequence (foldl handle_adxl345_data self ps)
             \<le> convert_sequence (foldl handle_adxl345_data self ps) (end_sequence params))"
  using finish_capped[of self ps t params s' r]
  by (simp add: fold_raw_length handle_full fold_full handle_last_sequence handle_below_cap)

theorem buffer_capacity_witness:
  "\<exists>s' r.
     length (adxl_raw_samples full_adxl345) \<le> 300000
     \<and> 300000 \<le> length (adxl_raw_samples full_adxl345)
     \<and> length (adxl_raw_samples (foldl handle_adxl345_data full_adxl345 extra_blocks)) = 300000
     \<and> adxl_raw_samples (foldl handle_adxl345_data full_adxl345 extra_blocks)
         = adxl_raw_samples full_adxl345
     \<and> length (adxl_raw_samples example_adxl345) < 300000
     \<and> adxl_raw_samples (handle_adxl345_data example_adxl345 (observed (0, [1, 2])))
         = [(0, [1, 2])]
     \<and> is_measuring full_adxl345
     \<and> finish_measurements (foldl handle_adxl345_data full_adxl345 extra_blocks) 2 capped_end
         = Inr (s', r)
     \<and> raw_samples r = Some (adxl_raw_samples full_adxl345)
     \<and> drops r = 16"
proof -
  from extra_finish obtain s' r where
    fin: "finish_measurements (foldl handle_adxl345_data full_adxl345 extra_blocks) 2 capped_end
            = Inr (s', r)"
    by blast
  note cap = buffer_capacity [of full_adxl345 extra_blocks "observed (300000, replicate 48 0)"
      2 capped_end s' r]
  note low = buffer_capacity [of example_adxl345 "[]" "observed (0, [1, 2])"
      2 capped_end s' r]
  have full: "300000 \<le> length (adxl_raw_samples full_adxl345)"
    by (simp add: full_length)
  have empty: "adxl_raw_samples example_adxl345 = []" "last_sequence example_adxl345 = 0"
    by (simp_all add: example_adxl345_def ADXL345_init_def)
  from cap full have kept:
    "adxl_raw_samples (foldl handle_adxl345_data full_adxl345 extra_blocks)
       = adxl_raw_samples full_adxl345"
    by blast
  from cap full full_measuring fin have fd:
    "raw_samples r = Some (adxl_raw_samples full_adxl345)"
    "drops r = expected_total (adxl_raw_samples full_adxl345)
                 (convert_sequence (foldl handle_adxl345_data full_adxl345 extra_blocks)
                    (end_sequence capped_end))
               - received_count (adxl_raw_samples full_adxl345)"
    by blast+
  have d: "drops r = 16" using fd(2) by (simp only: extra_end full_counts_cap)
  from low empty have stored:
    "adxl_raw_samples (handle_adxl345_data example_adxl345 (observed (0, [1, 2])))
       = [(convert_sequence example_adxl345 (sequence (observed (0, [1, 2]))),
           data (observed (0, [1, 2])))]"
    by simp
  have cs: "convert_sequence example_adxl345 (sequence (observed (0, [1, 2]))) = 0"
    by (simp add: convert_sequence_arith observed_def empty)
  have stored': "adxl_raw_samples (handle_adxl345_data example_adxl345 (observed (0, [1, 2])))
       = [(0, [1, 2])]"
    unfolding stored cs by (simp add: observed_def)
  have len: "length (adxl_raw_samples (foldl handle_adxl345_data full_adxl345 extra_blocks))
       = 300000"
    unfolding kept by (rule full_length)
  show ?thesis
    using kept len stored' fin fd(1) d full_measuring
    by (intro exI[of _ s'] exI[of _ r]) (simp add: full_length empty)
qed

subsection \<open>The regression decoder and its closed form\<close>

lemma slice6:
  assumes "take 6 (drop k d) = [a0, a1, a2, a3, a4, a5]"
  shows "d ! k = a0" "d ! (k + 1) = a1" "d ! (k + 2) = a2" "d ! (k + 3) = a3"
    "d ! (k + 4) = a4" "d ! (k + 5) = a5"
proof -
  have len: "k + 6 \<le> length d"
    using arg_cong[OF assms, of length] by simp
  have n: "take 6 (drop k d) ! j = d ! (k + j)" if "j < 6" for j
    using that len by simp
  show "d ! k = a0" using n[of 0] assms by simp
  show "d ! (k + 1) = a1" using n[of 1] assms by simp
  show "d ! (k + 2) = a2" using n[of 2] assms by simp
  show "d ! (k + 3) = a3" using n[of 3] assms by simp
  show "d ! (k + 4) = a4" using n[of 4] assms by simp
  show "d ! (k + 5) = a5" using n[of 5] assms by simp
qed

lemma extract_sample_Inr:
  assumes "extract_sample ops am tt (f_sub ops (f_int ops (sq * 8)) (chip_base tt)) d i = Inr s"
  shows "s = lis_sample_of ops am tt sq d i"
proof -
  obtain xp xs yp ys zp zs where am: "am = ((xp, xs), (yp, ys), (zp, zs))"
    by (metis prod.exhaust)
  from assms obtain a0 a1 a2 a3 a4 a5 where
    sl: "take 6 (drop (i * 6) d) = [a0, a1, a2, a3, a4, a5]"
    by (auto simp: extract_sample_def am BYTES_PER_SAMPLE_def split: list.splits)
  note b = slice6[OF sl]
  show ?thesis
    using assms sl b
    by (auto simp: extract_sample_def am BYTES_PER_SAMPLE_def lis_sample_of_def Let_def
        regression_time_def py_index_def mult.commute bind_res_def split: if_splits)
qed

lemma extract_inner_Inr:
  assumes "extract_inner ops am tt (f_sub ops (f_int ops (sq * 8)) (chip_base tt)) d js
             (arr, n, iv) = Inr (arr', n', iv')"
    and "n \<le> length arr"
  shows "n' = n + length js \<and> n' \<le> length arr \<and> length arr' = length arr
         \<and> take n' arr' = take n arr @ map (\<lambda>j. Some (lis_sample_of ops am tt sq d j)) js
         \<and> (js = [] \<longrightarrow> iv' = iv) \<and> (js \<noteq> [] \<longrightarrow> iv' = Some (last js))"
  using assms
proof (induction js arbitrary: arr n iv)
  case Nil
  then show ?case by simp
next
  case (Cons j js)
  from Cons.prems(1) obtain s where
    s: "extract_sample ops am tt (f_sub ops (f_int ops (sq * 8)) (chip_base tt)) d j = Inr s"
    and lt: "n < length arr"
    and rest: "extract_inner ops am tt (f_sub ops (f_int ops (sq * 8)) (chip_base tt)) d js
                 (arr[n := Some s], n + 1, Some j) = Inr (arr', n', iv')"
    by (auto simp: bind_res_def split: sum.splits if_splits)
  have sv: "s = lis_sample_of ops am tt sq d j" using s by (rule extract_sample_Inr)
  have "n + 1 \<le> length (arr[n := Some s])" using lt by simp
  from Cons.IH[OF rest this]
  have ih: "n' = n + 1 + length js" "n' \<le> length arr" "length arr' = length arr"
    "take n' arr' = take (n + 1) (arr[n := Some s])
                      @ map (\<lambda>j. Some (lis_sample_of ops am tt sq d j)) js"
    "js = [] \<longrightarrow> iv' = Some j" "js \<noteq> [] \<longrightarrow> iv' = Some (last js)"
    by auto
  have "take (n + 1) (arr[n := Some s]) = take n arr @ [Some s]"
    using lt by (simp add: take_Suc_conv_app_nth)
  with ih sv show ?case by auto
qed

lemma length_lis_block [simp]:
  "length (lis_block ops am tt last_seq p) = length (data p) div 6"
  by (simp add: lis_block_def)

lemma extract_outer_Inr:
  assumes "extract_outer ops am last_seq tt raw (sq, arr, n, iv) = Inr (sq', arr', n', iv')"
    and "n \<le> length arr"
  shows "n' = n + length (concat (map (lis_block ops am tt last_seq) raw))
         \<and> n' \<le> length arr \<and> length arr' = length arr
         \<and> take n' arr' = take n arr @ map Some (concat (map (lis_block ops am tt last_seq) raw))"
  using assms
proof (induction raw arbitrary: sq arr n iv)
  case Nil
  then show ?case by simp
next
  case (Cons p raw)
  let ?sq = "block_seq last_seq (sequence p)"
  let ?k = "length (data p) div 6"
  from Cons.prems(1) obtain arr1 n1 iv1 where
    inner: "extract_inner ops am tt (f_sub ops (f_int ops (?sq * 8)) (chip_base tt)) (data p)
              [0..<?k] (arr, n, iv) = Inr (arr1, n1, iv1)"
    and rest: "extract_outer ops am last_seq tt raw (?sq, arr1, n1, iv1)
                 = Inr (sq', arr', n', iv')"
    by (auto simp: bind_res_def Let_def SAMPLES_PER_BLOCK_def BYTES_PER_SAMPLE_def
        split: sum.splits)
  from extract_inner_Inr[OF inner Cons.prems(2)]
  have i: "n1 = n + ?k" "n1 \<le> length arr" "length arr1 = length arr"
    "take n1 arr1 = take n arr @ map Some (lis_block ops am tt last_seq p)"
    by (auto simp: lis_block_def comp_def)
  have "n1 \<le> length arr1" using i by simp
  from Cons.IH[OF rest this] i show ?case by auto
qed

lemma extract_samples_Inr:
  assumes "extract_samples ops am last_seq tt raw = Inr (out, clk)"
  shows "out = map Some (concat (map (lis_block ops am tt last_seq) raw))"
proof -
  from assms obtain sq arr n iv where
    outer: "extract_outer ops am last_seq tt raw
              (0, replicate (length raw * SAMPLES_PER_BLOCK) None, 0, None) = Inr (sq, arr, n, iv)"
    and out: "out = take n arr"
    by (auto simp: extract_samples_def bind_res_def split: sum.splits option.splits)
  from extract_outer_Inr[OF outer] out show ?thesis by auto
qed

lemma take_first_update: "0 < n \<Longrightarrow> take (Suc 0) ((replicate n x)[0 := v]) = [v]"
  by (cases n) simp_all

lemma example_extract:
  "extract_samples exact_ops example_lis_axes 4 example_translation example_batch
     = Inr ([Some (2001 / 200, 957129 / 200000, - (957129 / 200000),
                   - (1225125171 / 1000000))], 40)"
  by (simp add: extract_samples_def example_batch_def example_lis_axes_def exact_ops_def
      example_translation_def SAMPLES_PER_BLOCK_def BYTES_PER_SAMPLE_def block_seq_def
      extract_sample_def merge_bytes_def py_index_def py_round6_def py_round_def Let_def
      upt_conv_Cons take_first_update)



subsection \<open>A batch without a complete sample\<close>

text \<open>
  C9 fails in regression mode. For a batch whose only block carries 3 bytes
  the inner loop of \<^verbatim>\<open>_extract_samples\<close> never runs, its loop variable
  \<^verbatim>\<open>i\<close> is never bound, and the statement after the loops, which reads
  \<^verbatim>\<open>i\<close>, raises UnboundLocalError, whatever the float operations, the axes
  map, the last sequence number and the time translation are.
\<close>

theorem short_batch_unbound:
  "extract_samples ops am last_seq tt short_batch = Inl UnboundLocalError"
  by (simp add: extract_samples_def short_batch_def SAMPLES_PER_BLOCK_def
      BYTES_PER_SAMPLE_def Let_def)

subsection \<open>One run of the calibration callback\<close>

lemma bind_res_eq_Inr: "bind_res m f = Inr y \<longleftrightarrow> (\<exists>x. m = Inr x \<and> f x = Inr y)"
  by (cases m) simp_all

lemma mean_of_eq: "ms \<noteq> [] \<Longrightarrow> mean_of fa f ms = Inr (mean_axis fa f ms)"
  by (simp add: mean_of_def mean_axis_def)

lemma py_max_eq: "ms \<noteq> [] \<Longrightarrow> py_max (map g ms) = Inr (Max (g ` set ms))"
proof (cases ms)
  case Nil
  then show "ms \<noteq> [] \<Longrightarrow> ?thesis" by simp
next
  case (Cons m rest)
  have "Max (set (g m # map g rest)) = fold max (map g rest) (g m)"
    by (rule Max.set_eq_fold)
  then show ?thesis by (simp add: Cons)
qed

lemma out_of_tolerance_alt:
  "out_of_tolerance fa thresh ms \<longleftrightarrow>
     fl_mul fa FREEFALL_ACCEL 0.5 < \<bar>fl_sub fa (meas_of fa ms) FREEFALL_ACCEL\<bar>
     \<or> thresh < accel_noise_of fa ms"
  by (auto simp: out_of_tolerance_def accel_noise_of_def less_max_iff_disj)

lemma offset_axes_measured_error:
  "measured self ft ps = Inl e \<Longrightarrow> offset_axes fa self retries ft ps rt = Inl e"
  by (auto simp: measured_def offset_axes_def bind_res_def split: sum.splits prod.splits)

lemma offset_axes_empty:
  assumes "measured self ft ps = Inr (a1, [])"
  shows "offset_axes fa self retries ft ps rt = Inl ZeroDivisionError"
  using assms
  by (auto simp: measured_def offset_axes_def bind_res_eq_Inr mean_of_def split: prod.splits)

lemma offset_axes_steps:
  assumes "measured self ft ps = Inr (a1, ms)" "ms \<noteq> []"
  shows "offset_axes fa self retries ft ps rt =
     (if fl_mul fa FREEFALL_ACCEL 0.5 < \<bar>fl_sub fa (meas_of fa ms) FREEFALL_ACCEL\<bar>
      then retry_or_abort fa (self\<lparr> adxl345 := a1 \<rparr>) retries rt
             (FreefallRetrying (meas_of fa ms) (retries - 1)) (FreefallAborting (meas_of fa ms))
      else if tap_thresh self < accel_noise_of fa ms
      then retry_or_abort fa (self\<lparr> adxl345 := a1 \<rparr>) retries rt
             (NoiseRetrying (tap_thresh self) (accel_noise_of fa ms) (retries - 1))
             (NoiseAborting (tap_thresh self) (accel_noise_of fa ms))
      else (case w_axes_map self of (ax, ay, az) \<Rightarrow>
              bind_res
                (write_offsets fa a1 [(mean_axis fa accel_x ms, ax), (mean_axis fa accel_y ms, ay),
                                      (mean_axis fa accel_z ms, az)])
                (\<lambda>a2. Inr (self\<lparr> adxl345 := a2,
                                 messages := messages self @ [SuccessfullyCalibrated],
                                 calibrated := True \<rparr>,
                           Calibrated))))"
proof -
  have px: "py_max (map (\<lambda>s. \<bar>fl_sub fa (accel_x s) (mean_axis fa accel_x ms)\<bar>) ms)
              = Inr (peak_deviation fa accel_x ms)"
    and py: "py_max (map (\<lambda>s. \<bar>fl_sub fa (accel_y s) (mean_axis fa accel_y ms)\<bar>) ms)
              = Inr (peak_deviation fa accel_y ms)"
    and pz: "py_max (map (\<lambda>s. \<bar>fl_sub fa (accel_z s) (mean_axis fa accel_z ms)\<bar>) ms)
              = Inr (peak_deviation fa accel_z ms)"
    using assms(2) by (simp_all add: py_max_eq peak_deviation_def)
  from assms(1) obtain res res1 cs where
    f: "finish_measurements (adxl345 self) ft ps = Inr (a1, res)"
    and d: "decode_samples res = Inr (res1, cs)" and c: "cells cs = Inr ms"
    by (auto simp: measured_def bind_res_eq_Inr split: prod.splits)
  show ?thesis
    unfolding offset_axes_def
    by (simp add: f d c mean_of_eq[OF assms(2)] px py pz Let_def meas_of_def accel_noise_of_def
        split: prod.splits)
qed

lemma calibrate_frame:
  assumes "calibrate fa self retries t = Inr (self1, r)"
  shows "r = retries \<and> calibrated self1 = calibrated self \<and> tap_thresh self1 = tap_thresh self
    \<and> messages self1 = messages self \<and> w_axes_map self1 = w_axes_map self"
  using assms
  by (auto simp: calibrate_def bind_res_eq_Inr Let_def split: prod.splits)

lemma retry_or_abort_Inr:
  assumes "retry_or_abort fa self retries rt m1 m2 = Inr (self', out)"
  shows "calibrated self' = calibrated self
    \<and> (0 < retries \<longrightarrow> out = Rescheduled (retries - 1) \<and> messages self' = messages self @ [m1])
    \<and> (retries \<le> 0 \<longrightarrow> out = Aborted \<and> self' = self\<lparr> messages := messages self @ [m2] \<rparr>)"
proof (cases "0 < retries")
  case True
  with assms obtain s1 r where
    c: "calibrate fa (self\<lparr> messages := messages self @ [m1] \<rparr>) (retries - 1) rt = Inr (s1, r)"
    and e: "self' = s1" "out = Rescheduled r"
    by (auto simp: retry_or_abort_def bind_res_eq_Inr)
  from calibrate_frame[OF c] e True show ?thesis by simp
next
  case False
  with assms show ?thesis by (auto simp: retry_or_abort_def)
qed

lemma retry_or_abort_exhausted:
  "retries \<le> 0 \<Longrightarrow>
   retry_or_abort fa self retries rt m1 m2
     = Inr (self\<lparr> messages := messages self @ [m2] \<rparr>, Aborted)"
  by (simp add: retry_or_abort_def)

lemma offset_axes_Inr:
  assumes "offset_axes fa self retries ft ps rt = Inr (self', out)"
  shows "\<exists>a1 ms. measured self ft ps = Inr (a1, ms) \<and> ms \<noteq> []
           \<and> (out_of_tolerance fa (tap_thresh self) ms \<longrightarrow>
                 calibrated self' = calibrated self
                 \<and> (0 < retries \<longrightarrow> out = Rescheduled (retries - 1))
                 \<and> (retries \<le> 0 \<longrightarrow> out = Aborted))
           \<and> (\<not> out_of_tolerance fa (tap_thresh self) ms \<longrightarrow>
                 out = Calibrated \<and> calibrated self')"
proof -
  from assms obtain a1 ms where m: "measured self ft ps = Inr (a1, ms)"
    using offset_axes_measured_error[of self ft ps _ fa retries rt]
    by (cases "measured self ft ps") auto
  have ne: "ms \<noteq> []"
    using assms offset_axes_empty[of self ft ps a1 fa retries rt] m by auto
  note st = offset_axes_steps[OF m ne, of fa retries rt]
  show ?thesis
  proof (cases "out_of_tolerance fa (tap_thresh self) ms")
    case True
    then obtain m1 m2 where
      "retry_or_abort fa (self\<lparr> adxl345 := a1 \<rparr>) retries rt m1 m2 = Inr (self', out)"
      using assms st by (auto simp: out_of_tolerance_alt split: if_splits)
    from retry_or_abort_Inr[OF this] True m ne show ?thesis by auto
  next
    case False
    then have "out = Calibrated \<and> calibrated self'"
      using assms st
      by (auto simp: out_of_tolerance_alt bind_res_eq_Inr split: prod.splits)
    with False m ne show ?thesis by auto
  qed
qed

lemma offset_axes_outcome:
  assumes "offset_axes fa self retries ft ps rt = Inr (self', out)"
  shows "(\<forall>r. out = Rescheduled r \<longrightarrow> 0 < retries \<and> r = retries - 1
              \<and> calibrated self' = calibrated self)
         \<and> (out = Aborted \<longrightarrow> retries \<le> 0 \<and> calibrated self' = calibrated self)
         \<and> (out = Calibrated \<longrightarrow> calibrated self')"
proof -
  from offset_axes_Inr[OF assms] obtain a1 ms where
    h: "out_of_tolerance fa (tap_thresh self) ms \<longrightarrow>
                 calibrated self' = calibrated self
                 \<and> (0 < retries \<longrightarrow> out = Rescheduled (retries - 1))
                 \<and> (retries \<le> 0 \<longrightarrow> out = Aborted)"
      "\<not> out_of_tolerance fa (tap_thresh self) ms \<longrightarrow> out = Calibrated \<and> calibrated self'"
    by blast
  show ?thesis
  proof (cases "out_of_tolerance fa (tap_thresh self) ms")
    case True
    with h show ?thesis by (cases "0 < retries") auto
  next
    case False
    with h show ?thesis by auto
  qed
qed

subsection \<open>The callbacks of a calibration\<close>

lemma run_callbacks_step:
  assumes "run_callbacks fa self retries (att # rest) n = Inr (self', out, m)"
  obtains s1 o1 where
    "offset_axes fa (self\<lparr> adxl345 := deliver (adxl345 self) att \<rparr>) retries
       (finish_time att) (end_msg att) (restart_time att) = Inr (s1, o1)"
    "(case o1 of Rescheduled r \<Rightarrow> run_callbacks fa s1 r rest (n + 1)
       | _ \<Rightarrow> Inr (s1, o1, n + 1)) = Inr (self', out, m)"
proof -
  from assms[unfolded run_callbacks.simps bind_res_eq_Inr]
  obtain x where x: "offset_axes fa (self\<lparr> adxl345 := deliver (adxl345 self) att \<rparr>) retries
       (finish_time att) (end_msg att) (restart_time att) = Inr x"
    "(case x of (self1, out) \<Rightarrow>
        case out of Rescheduled r \<Rightarrow> run_callbacks fa self1 r rest (n + 1)
        | _ \<Rightarrow> Inr (self1, out, n + 1)) = Inr (self', out, m)"
    by blast
  obtain s1 o1 where "x = (s1, o1)" by (cases x)
  with x that show ?thesis by simp
qed

lemma run_callbacks_Inr:
  assumes "run_callbacks fa self retries atts n = Inr (self', out, m)" "0 \<le> retries"
  shows "m \<le> n + nat retries + 1
         \<and> (out = Aborted \<longrightarrow> m = n + nat retries + 1 \<and> calibrated self' = calibrated self)
         \<and> (out = Calibrated \<longrightarrow> calibrated self')
         \<and> (\<forall>r. out = Rescheduled r \<longrightarrow>
               m = n + length atts \<and> r = retries - int (length atts) \<and> 0 \<le> r
               \<and> calibrated self' = calibrated self)"
  using assms
proof (induction atts arbitrary: self retries n)
  case Nil
  then show ?case by auto
next
  case (Cons att rest)
  let ?self0 = "self\<lparr> adxl345 := deliver (adxl345 self) att \<rparr>"
  from Cons.prems(1) obtain s1 o1 where
    st: "offset_axes fa ?self0 retries (finish_time att) (end_msg att) (restart_time att)
           = Inr (s1, o1)"
    and rest: "(case o1 of Rescheduled r \<Rightarrow> run_callbacks fa s1 r rest (n + 1)
                | _ \<Rightarrow> Inr (s1, o1, n + 1)) = Inr (self', out, m)"
    by (rule run_callbacks_step)
  from offset_axes_outcome[OF st]
  have oc1: "\<And>r. o1 = Rescheduled r \<Longrightarrow> 0 < retries \<and> r = retries - 1
              \<and> calibrated s1 = calibrated self"
    and oc2: "o1 = Aborted \<Longrightarrow> retries \<le> 0 \<and> calibrated s1 = calibrated self"
    and oc3: "o1 = Calibrated \<Longrightarrow> calibrated s1"
    by simp_all
  show ?case
  proof (cases o1)
    case (Rescheduled r)
    from oc1[OF Rescheduled]
    have r: "0 < retries" "r = retries - 1" "calibrated s1 = calibrated self" by simp_all
    from rest Rescheduled have rc: "run_callbacks fa s1 r rest (n + 1) = Inr (self', out, m)"
      by simp
    have r0: "0 \<le> r" using r by simp
    have nr: "nat r + 1 = nat retries" using r by simp
    have lr: "r - int (length rest) = retries - int (length (att # rest))" using r by simp
    from Cons.IH[OF rc r0]
    have ih: "m \<le> n + 1 + nat r + 1"
      "out = Aborted \<longrightarrow> m = n + 1 + nat r + 1 \<and> calibrated self' = calibrated s1"
      "out = Calibrated \<longrightarrow> calibrated self'"
      "\<forall>r'. out = Rescheduled r' \<longrightarrow>
               m = n + 1 + length rest \<and> r' = r - int (length rest) \<and> 0 \<le> r'
               \<and> calibrated self' = calibrated s1"
      by blast+
    have c1: "m \<le> n + nat retries + 1" using ih(1) nr by linarith
    have c2: "out = Aborted \<longrightarrow> m = n + nat retries + 1 \<and> calibrated self' = calibrated self"
      using ih(2) nr r(3) by auto
    have c4: "\<forall>r'. out = Rescheduled r' \<longrightarrow>
               m = n + length (att # rest) \<and> r' = retries - int (length (att # rest)) \<and> 0 \<le> r'
               \<and> calibrated self' = calibrated self"
    proof (intro allI impI)
      fix r' assume "out = Rescheduled r'"
      with ih(4) have "m = n + 1 + length rest" "r' = r - int (length rest)" "0 \<le> r'"
        "calibrated self' = calibrated s1" by blast+
      then show "m = n + length (att # rest) \<and> r' = retries - int (length (att # rest)) \<and> 0 \<le> r'
               \<and> calibrated self' = calibrated self"
        using lr r(3) by simp
    qed
    from c1 c2 ih(3) c4 show ?thesis by blast
  next
    case Aborted
    from oc2[OF Aborted] have a: "retries = 0" "calibrated s1 = calibrated self"
      using Cons.prems(2) by simp_all
    from rest Aborted have "self' = s1" "out = Aborted" "m = n + 1" by simp_all
    with a show ?thesis by simp
  next
    case Calibrated
    from rest Calibrated have "self' = s1" "out = Calibrated" "m = n + 1" by simp_all
    with oc3[OF Calibrated] show ?thesis by simp
  qed
qed

lemma persistent_abort:
  assumes "run_callbacks fa self retries atts n = Inr (self', out, m)"
    and "persistently_out fa self retries atts" "0 \<le> retries" "nat retries < length atts"
  shows "out = Aborted \<and> m = n + nat retries + 1 \<and> calibrated self' = calibrated self"
  using assms
proof (induction atts arbitrary: self retries n)
  case Nil
  then show ?case by simp
next
  case (Cons att rest)
  let ?self0 = "self\<lparr> adxl345 := deliver (adxl345 self) att \<rparr>"
  from Cons.prems(1) obtain s1 o1 where
    st: "offset_axes fa ?self0 retries (finish_time att) (end_msg att) (restart_time att)
           = Inr (s1, o1)"
    and rest: "(case o1 of Rescheduled r \<Rightarrow> run_callbacks fa s1 r rest (n + 1)
                | _ \<Rightarrow> Inr (s1, o1, n + 1)) = Inr (self', out, m)"
    by (rule run_callbacks_step)
  from offset_axes_Inr[OF st] obtain a1 ms where
    m: "measured ?self0 (finish_time att) (end_msg att) = Inr (a1, ms)"
    and h: "out_of_tolerance fa (tap_thresh ?self0) ms \<longrightarrow>
                 calibrated s1 = calibrated ?self0
                 \<and> (0 < retries \<longrightarrow> o1 = Rescheduled (retries - 1))
                 \<and> (retries \<le> 0 \<longrightarrow> o1 = Aborted)"
    by blast
  from Cons.prems(2)
  have p1: "case measured ?self0 (finish_time att) (end_msg att) of
            Inl _ \<Rightarrow> False
          | Inr (a1, ms) \<Rightarrow> out_of_tolerance fa (tap_thresh ?self0) ms"
    and p2: "case offset_axes fa ?self0 retries (finish_time att) (end_msg att)
                    (restart_time att) of
               Inr (self1, Rescheduled r) \<Rightarrow> persistently_out fa self1 r rest
             | _ \<Rightarrow> True"
    by (simp_all only: persistently_out.simps Let_def)
  have oot: "out_of_tolerance fa (tap_thresh ?self0) ms"
    using p1 by (simp only: m sum.case prod.case)
  from h oot have c: "calibrated s1 = calibrated self"
    and hr: "0 < retries \<Longrightarrow> o1 = Rescheduled (retries - 1)"
    and ha: "retries \<le> 0 \<Longrightarrow> o1 = Aborted"
    by simp_all
  show ?case
  proof (cases "0 < retries")
    case True
    have o1: "o1 = Rescheduled (retries - 1)" using hr[OF True] .
    from rest have rc: "run_callbacks fa s1 (retries - 1) rest (n + 1) = Inr (self', out, m)"
      by (simp only: o1 outcome.case)
    have p: "persistently_out fa s1 (retries - 1) rest"
      using p2 by (simp only: st o1 sum.case prod.case outcome.case)
    have b: "0 \<le> retries - 1" "nat (retries - 1) < length rest"
      using True Cons.prems(4) by auto
    from Cons.IH[OF rc p b]
    have ih: "out = Aborted" "m = n + 1 + nat (retries - 1) + 1" "calibrated self' = calibrated s1"
      by simp_all
    have "n + 1 + nat (retries - 1) + 1 = n + nat retries + 1" using True by simp
    with ih c show ?thesis by simp
  next
    case False
    then have o1: "o1 = Aborted" using ha by simp
    from rest have "self' = s1" "out = Aborted" "m = n + 1" by (simp_all add: o1)
    moreover have "nat retries = 0" using False by simp
    ultimately show ?thesis using c by simp
  qed
qed

lemma in_tolerance_first:
  assumes "run_callbacks fa self retries (att # rest) n = Inr (self', out, m)"
    and "measured (self\<lparr> adxl345 := deliver (adxl345 self) att \<rparr>) (finish_time att) (end_msg att)
           = Inr (a1, ms)"
    and "\<not> out_of_tolerance fa (tap_thresh self) ms"
  shows "out = Calibrated \<and> m = n + 1 \<and> calibrated self'"
proof -
  let ?self0 = "self\<lparr> adxl345 := deliver (adxl345 self) att \<rparr>"
  from assms(1) obtain s1 o1 where
    st: "offset_axes fa ?self0 retries (finish_time att) (end_msg att) (restart_time att)
           = Inr (s1, o1)"
    and rest: "(case o1 of Rescheduled r \<Rightarrow> run_callbacks fa s1 r rest (n + 1)
                | _ \<Rightarrow> Inr (s1, o1, n + 1)) = Inr (self', out, m)"
    by (rule run_callbacks_step)
  from offset_axes_Inr[OF st] obtain a1' ms' where
    m: "measured ?self0 (finish_time att) (end_msg att) = Inr (a1', ms')"
    and h: "\<not> out_of_tolerance fa (tap_thresh ?self0) ms' \<longrightarrow> o1 = Calibrated \<and> calibrated s1"
    by blast
  from m assms(2) have "ms' = ms" by simp
  with h assms(3) have o1: "o1 = Calibrated" and c: "calibrated s1" by simp_all
  from rest have "self' = s1" "out = Calibrated" "m = n + 1" by (simp_all add: o1)
  with c show ?thesis by simp
qed

subsection \<open>The writes to the offset registers\<close>

lemma and_255_mod: "(255::int) AND x = x mod 256"
proof -
  have "(255::int) = mask 8" by (simp add: mask_eq_exp_minus_1)
  then have "(255::int) AND x = x AND mask 8" by (simp add: and.commute)
  also have "\<dots> = take_bit 8 x" by (simp add: take_bit_eq_mask)
  also have "\<dots> = x mod 256" by (simp add: take_bit_eq_mod)
  finally show ?thesis .
qed

lemma byte_and_255: "0 \<le> v \<Longrightarrow> v \<le> 255 \<Longrightarrow> (v::int) AND 255 = v"
  using and_255_mod[of v] by (simp add: and.commute)

lemma ofs_val_mod:
  "ofs_val fa ofs sc
     = fl_round fa (fl_mul fa (fl_div fa (- ofs) sc) (fl_div fa SCALE OFS_SCALE)) mod 256"
  by (simp add: ofs_val_def and_255_mod)

lemma ofs_val_byte: "0 \<le> ofs_val fa ofs sc" "ofs_val fa ofs sc \<le> 255"
  by (simp_all add: ofs_val_mod)

lemma set_reg_ok:
  assumes "0 \<le> v" "v \<le> 255"
  shows "set_reg a reg v mc =
     Inr (a\<lparr> regs := (regs a)(reg := v),
             io_log := io_log a @ [SpiSend reg v mc, SpiTransfer (reg OR REG_MOD_READ)] \<rparr>)"
  using assms
  by (simp add: set_reg_def spi_send_def read_reg_def spi_transfer_def byte_and_255 Let_def)

lemma write_offsets_Inr:
  assumes "write_offsets fa a xs = Inr a'"
  shows "io_log a' = io_log a @ offset_writes fa xs
         \<and> regs a' = fold (\<lambda>(ofs, (pos, sc)) f.
               f(ofs_regs ! pos :=
                   fl_round fa (fl_mul fa (fl_div fa (- ofs) sc) (fl_div fa SCALE OFS_SCALE))
                     mod 256)) xs (regs a)
         \<and> list_all (\<lambda>(ofs, (pos, sc)). pos < 3 \<and> sc \<noteq> 0) xs"
  using assms
proof (induction xs arbitrary: a)
  case Nil
  then show ?case by (simp add: offset_writes_def)
next
  case (Cons x xs)
  obtain ofs pos sc where x: "x = (ofs, (pos, sc))" by (metis prod.exhaust)
  from Cons.prems have pos: "pos < 3" and sc: "sc \<noteq> 0"
    by (auto simp: x bind_res_eq_Inr py_index_def ofs_regs_def split: if_splits)
  let ?a1 = "a\<lparr> regs := (regs a)(ofs_regs ! pos := ofs_val fa ofs sc),
             io_log := io_log a @ [SpiSend (ofs_regs ! pos) (ofs_val fa ofs sc) 0,
                                   SpiTransfer (ofs_regs ! pos OR REG_MOD_READ)] \<rparr>"
  have "write_offsets fa a (x # xs) = write_offsets fa ?a1 xs"
    using pos sc
    by (simp add: x py_index_def ofs_regs_def set_reg_ok[OF ofs_val_byte])
  with Cons.prems have r: "write_offsets fa ?a1 xs = Inr a'" by simp
  from Cons.IH[OF r] pos sc show ?case
    by (simp add: x offset_writes_def rounded_offset_def ofs_val_mod)
qed

lemma write_offsets_ok:
  assumes "list_all (\<lambda>(ofs, (pos, sc)). pos < 3 \<and> sc \<noteq> 0) xs"
  shows "\<exists>a'. write_offsets fa a xs = Inr a'"
  using assms
proof (induction xs arbitrary: a)
  case Nil
  then show ?case by simp
next
  case (Cons x xs)
  obtain ofs pos sc where x: "x = (ofs, (pos, sc))" by (metis prod.exhaust)
  from Cons.prems have pos: "pos < 3" and sc: "sc \<noteq> 0" and rest:
    "list_all (\<lambda>(ofs, (pos, sc)). pos < 3 \<and> sc \<noteq> 0) xs"
    by (simp_all add: x)
  show ?case
    using pos sc Cons.IH[OF rest]
    by (simp add: x py_index_def ofs_regs_def set_reg_ok[OF ofs_val_byte])
qed

lemma offset_axes_abort:
  assumes "measured self ft ps = Inr (a1, ms)" "ms \<noteq> []"
    and "out_of_tolerance fa (tap_thresh self) ms" "retries \<le> 0"
  shows "\<exists>msg. offset_axes fa self retries ft ps rt
           = Inr (self\<lparr> adxl345 := a1, messages := messages self @ [msg] \<rparr>, Aborted)"
  using assms(3,4)
  by (auto simp: offset_axes_steps[OF assms(1,2)] out_of_tolerance_alt retry_or_abort_exhausted)

lemma offset_axes_success:
  assumes "measured self ft ps = Inr (a1, ms)" "ms \<noteq> []"
    and "\<not> out_of_tolerance fa (tap_thresh self) ms" "valid_axes_map (w_axes_map self)"
  shows "\<exists>self'. offset_axes fa self retries ft ps rt = Inr (self', Calibrated)"
proof -
  obtain xp xs yp ys zp zs where am: "w_axes_map self = ((xp, xs), (yp, ys), (zp, zs))"
    by (metis prod.exhaust)
  have "list_all (\<lambda>(ofs, (pos, sc)). pos < 3 \<and> sc \<noteq> 0)
          [(mean_axis fa accel_x ms, (xp, xs)), (mean_axis fa accel_y ms, (yp, ys)),
           (mean_axis fa accel_z ms, (zp, zs))]"
    using assms(4) by (simp add: valid_axes_map_def am)
  from write_offsets_ok[OF this, where a = a1 and fa = fa] obtain a2 where
    "write_offsets fa a1 [(mean_axis fa accel_x ms, (xp, xs)), (mean_axis fa accel_y ms, (yp, ys)),
           (mean_axis fa accel_z ms, (zp, zs))] = Inr a2"
    by blast
  then show ?thesis
    using assms(3)
    by (simp add: offset_axes_steps[OF assms(1,2)] out_of_tolerance_alt am)
qed

lemma offset_axes_calibrated:
  assumes "offset_axes fa self retries ft ps rt = Inr (self', Calibrated)"
  shows "\<exists>a1 ms. measured self ft ps = Inr (a1, ms) \<and> ms \<noteq> []
           \<and> calibrated self'
           \<and> (case w_axes_map self of (ax, ay, az) \<Rightarrow>
                 write_offsets fa a1 [(mean_axis fa accel_x ms, ax), (mean_axis fa accel_y ms, ay),
                                      (mean_axis fa accel_z ms, az)] = Inr (adxl345 self'))"
proof -
  from offset_axes_Inr[OF assms] obtain a1 ms where
    m: "measured self ft ps = Inr (a1, ms)" "ms \<noteq> []"
    and h: "out_of_tolerance fa (tap_thresh self) ms \<longrightarrow>
                 (0 < retries \<longrightarrow> Calibrated = Rescheduled (retries - 1))
                 \<and> (retries \<le> 0 \<longrightarrow> Calibrated = Aborted)"
    and c: "\<not> out_of_tolerance fa (tap_thresh self) ms \<longrightarrow> calibrated self'"
    by blast
  have no: "\<not> out_of_tolerance fa (tap_thresh self) ms"
    using h by (cases "0 < retries") auto
  from assms no have "case w_axes_map self of (ax, ay, az) \<Rightarrow>
                 write_offsets fa a1 [(mean_axis fa accel_x ms, ax), (mean_axis fa accel_y ms, ay),
                                      (mean_axis fa accel_z ms, az)] = Inr (adxl345 self')"
    by (auto simp: offset_axes_steps[OF m] out_of_tolerance_alt bind_res_eq_Inr
        split: prod.splits)
  with m c no show ?thesis
    by (intro exI[of _ a1] exI[of _ ms] conjI) simp_all
qed

subsection \<open>A probe on which the calibration starts\<close>

lemma query_rates_Some:
  assumes "QUERY_RATES rate = Some code"
  shows "0 \<le> code" "code \<le> 255" "0 < rate"
  using assms by (auto simp: QUERY_RATES_def split: if_splits)

lemma start_measurements_ok:
  assumes "regs a REG_DEVID = ADXL345_DEV_ID" "\<not> is_measuring a"
    and "QUERY_RATES (data_rate a) \<noteq> None"
  shows "\<exists>a'. start_measurements a None t = Inr a'
           \<and> query_rate a' = data_rate a \<and> adxl_raw_samples a' = [] \<and> last_sequence a' = 0
           \<and> samples_start1 a' = t \<and> samples_start2 a' = t
           \<and> adxl_axes_map a' = adxl_axes_map a \<and> mcu a' = mcu a \<and> data_rate a' = data_rate a
           \<and> regs a' REG_DEVID = ADXL345_DEV_ID"
proof -
  from assms(3) obtain code where c: "QUERY_RATES (data_rate a) = Some code" by auto
  note cb = query_rates_Some[OF c]
  show ?thesis
    using assms(1,2) c cb
    by (simp add: start_measurements_def is_initialized_def initialize_def read_reg_def
        spi_transfer_def set_reg_ok Let_def REG_DEVID_def REG_POWER_CTL_def REG_DATA_FORMAT_def
        REG_FIFO_CTL_def REG_BW_RATE_def ADXL345_DEV_ID_def split: prod.splits)
qed

lemma same_chip_refl: "same_chip a a"
  by (simp add: same_chip_def)

lemma set_reg_frame:
  assumes "0 \<le> v" "v \<le> 255" "reg \<noteq> REG_DEVID"
  shows "\<exists>a'. set_reg a reg v mc = Inr a' \<and> same_chip a a'"
  using assms(3) by (simp add: set_reg_ok[OF assms(1,2)] same_chip_def)

lemma is_initialized_frame: "\<exists>b a'. is_initialized a = (b, a') \<and> same_chip a a'"
  by (auto simp: is_initialized_def read_reg_def spi_transfer_def same_chip_def Let_def)

lemma initialize_frame:
  assumes "regs a REG_DEVID = ADXL345_DEV_ID"
  shows "\<exists>a'. initialize a = Inr a' \<and> same_chip a a'"
  using assms
  by (simp add: initialize_def set_reg_ok read_reg_def spi_transfer_def same_chip_def Let_def
      REG_DEVID_def REG_POWER_CTL_def REG_DATA_FORMAT_def ADXL345_DEV_ID_def)

lemma zero_offsets_frame: "\<exists>a'. zero_offsets a ofs_regs = Inr a' \<and> same_chip a a'"
  by (simp add: ofs_regs_def set_reg_ok same_chip_def REG_OFSX_def REG_OFSY_def REG_OFSZ_def
      REG_DEVID_def)

lemma calibrate_ok:
  assumes pr: "probe_ready fa self" and idle: "\<not> is_measuring (adxl345 self)"
  shows "\<exists>a'. calibrate fa self r t = Inr (self\<lparr> adxl345 := a' \<rparr>, r)
           \<and> query_rate a' = data_rate (adxl345 self) \<and> adxl_raw_samples a' = []
           \<and> last_sequence a' = 0 \<and> samples_start1 a' = t \<and> samples_start2 a' = t
           \<and> adxl_axes_map a' = adxl_axes_map (adxl345 self) \<and> mcu a' = mcu (adxl345 self)
           \<and> data_rate a' = data_rate (adxl345 self)
           \<and> regs a' REG_DEVID = ADXL345_DEV_ID"
proof -
  let ?a = "adxl345 self"
  from pr have dev: "regs ?a REG_DEVID = ADXL345_DEV_ID"
    and rate: "QUERY_RATES (data_rate ?a) \<noteq> None"
    and im: "0 \<le> int_map self" "int_map self \<le> 255"
    and th: "0 \<le> py_int (fl_div fa (tap_thresh self) TAP_SCALE)"
            "py_int (fl_div fa (tap_thresh self) TAP_SCALE) \<le> 255"
    and du: "0 \<le> py_int (fl_div fa (tap_dur self) DUR_SCALE)"
            "py_int (fl_div fa (tap_dur self) DUR_SCALE) \<le> 255"
    by (simp_all add: probe_ready_def)
  obtain ini a1 where i1: "is_initialized ?a = (ini, a1)" and f1: "same_chip ?a a1"
    using is_initialized_frame by blast
  have "\<exists>a2. (if \<not> ini then initialize a1 else Inr a1) = Inr a2 \<and> same_chip a1 a2"
  proof (cases ini)
    case True
    then show ?thesis by (simp add: same_chip_refl)
  next
    case False
    have "regs a1 REG_DEVID = ADXL345_DEV_ID" using f1 dev by (simp add: same_chip_def)
    from initialize_frame[OF this] False show ?thesis by simp
  qed
  then obtain a2 where i2: "(if \<not> ini then initialize a1 else Inr a1) = Inr a2"
    and f2: "same_chip a1 a2" by blast
  obtain a3 where i3: "set_reg a2 REG_POWER_CTL 0x00 0 = Inr a3" and f3: "same_chip a2 a3"
    using set_reg_frame[of 0 REG_POWER_CTL a2 0]
    by (auto simp: REG_POWER_CTL_def REG_DEVID_def)
  have "\<exists>a4. (if inverted self then set_reg a3 REG_DATA_FORMAT 0x2B 0 else Inr a3) = Inr a4
          \<and> same_chip a3 a4"
    using set_reg_frame[of "0x2B" REG_DATA_FORMAT a3 0]
    by (auto simp: REG_DATA_FORMAT_def REG_DEVID_def same_chip_refl)
  then obtain a4 where
    i4: "(if inverted self then set_reg a3 REG_DATA_FORMAT 0x2B 0 else Inr a3) = Inr a4"
    and f4: "same_chip a3 a4" by blast
  obtain a5 where i5: "set_reg a4 REG_INT_MAP (int_map self) 0 = Inr a5"
    and f5: "same_chip a4 a5"
    using set_reg_frame[OF im, of REG_INT_MAP a4 0]
    by (auto simp: REG_INT_MAP_def REG_DEVID_def)
  obtain a6 where i6: "set_reg a5 REG_TAP_AXES 0x7 0 = Inr a6" and f6: "same_chip a5 a6"
    using set_reg_frame[of "0x7" REG_TAP_AXES a5 0]
    by (auto simp: REG_TAP_AXES_def REG_DEVID_def)
  obtain a7 where
    i7: "set_reg a6 REG_THRESH_TAP (py_int (fl_div fa (tap_thresh self) TAP_SCALE)) 0 = Inr a7"
    and f7: "same_chip a6 a7"
    using set_reg_frame[OF th, of REG_THRESH_TAP a6 0]
    by (auto simp: REG_THRESH_TAP_def REG_DEVID_def)
  obtain a8 where
    i8: "set_reg a7 REG_DUR (py_int (fl_div fa (tap_dur self) DUR_SCALE)) 0 = Inr a8"
    and f8: "same_chip a7 a8"
    using set_reg_frame[OF du, of REG_DUR a7 0]
    by (auto simp: REG_DUR_def REG_DEVID_def)
  obtain a9 where i9: "zero_offsets a8 ofs_regs = Inr a9" and f9: "same_chip a8 a9"
    using zero_offsets_frame by blast
  have f: "same_chip ?a a9"
    using f1 f2 f3 f4 f5 f6 f7 f8 f9 by (simp add: same_chip_def)
  have d9: "regs a9 REG_DEVID = ADXL345_DEV_ID" "\<not> is_measuring a9"
    "QUERY_RATES (data_rate a9) \<noteq> None"
    using f dev idle rate by (simp_all add: same_chip_def is_measuring_def)
  from start_measurements_ok[OF d9, of t] obtain a10 where
    i10: "start_measurements a9 None t = Inr a10"
    and p10: "query_rate a10 = data_rate a9" "adxl_raw_samples a10 = []" "last_sequence a10 = 0"
      "samples_start1 a10 = t" "samples_start2 a10 = t"
      "adxl_axes_map a10 = adxl_axes_map a9" "mcu a10 = mcu a9" "data_rate a10 = data_rate a9"
      "regs a10 REG_DEVID = ADXL345_DEV_ID"
    by blast
  have c: "calibrate fa self r t = Inr (self\<lparr> adxl345 := a10 \<rparr>, r)"
    unfolding calibrate_def
    by (simp only: i1 prod.case Let_def i2 bind_res_Inr i3 i4 i5 i6 i7 i8 i9 i10)
  show ?thesis
    using c p10 f by (intro exI[of _ a10]) (simp add: same_chip_def)
qed

subsection \<open>The samples of a finished session\<close>

lemma cells_map_Some: "cells (map Some ms) = Inr ms"
  by (induction ms) simp_all

lemma measured_ok:
  assumes m: "is_measuring (adxl345 self)" and ne: "adxl_raw_samples (adxl345 self) \<noteq> []"
    and e0: "convert_sequence (adxl345 self) (end_sequence ps) \<noteq> 0"
    and t0: "expected_total (adxl_raw_samples (adxl345 self))
               (convert_sequence (adxl345 self) (end_sequence ps)) \<noteq> 0"
    and vp: "valid_positions (adxl_axes_map (adxl345 self))"
    and le: "received_count (adxl_raw_samples (adxl345 self))
               \<le> expected_total (adxl_raw_samples (adxl345 self))
                    (convert_sequence (adxl345 self) (end_sequence ps))"
  shows "\<exists>tps. measured self ft ps =
     Inr ((adxl345 self)\<lparr> io_log := io_log (adxl345 self)
                 @ [QueryAdxl345End (print_time_to_clock (mcu (adxl345 self)) ft)],
               last_tx_time := ft, query_rate := 0, adxl_raw_samples := [] \<rparr>,
          concat (map (block_samples (adxl_axes_map (adxl345 self))
                         (samples_start2 (adxl345 self)) (tps * 8) tps)
                    (adxl_raw_samples (adxl345 self))))"
proof -
  let ?a = "adxl345 self"
  let ?raw = "adxl_raw_samples ?a"
  let ?e = "convert_sequence ?a (end_sequence ps)"
  let ?r = "ADXL345Results_init\<lparr> axes_map := Some (adxl_axes_map ?a),
                            raw_samples := Some ?raw,
                            overflows := uint (limit_count ps),
                            start2_time := Some (samples_start2 ?a),
                            start_range := samples_start2 ?a - samples_start1 ?a,
                            end_range := clock_to_print_time (mcu ?a) (end2_clock ps)
                                          - clock_to_print_time (mcu ?a) (end1_clock ps),
                            total_count := Some (expected_total ?raw ?e),
                            time_per_sample :=
                              (clock_to_print_time (mcu ?a) (end2_clock ps) - samples_start2 ?a)
                                / of_int (expected_total ?raw ?e),
                            seq_to_time :=
                              Some ((clock_to_print_time (mcu ?a) (end2_clock ps)
                                       - samples_start2 ?a)
                                     / of_int (expected_total ?raw ?e) * 8),
                            drops := expected_total ?raw ?e - received_count ?raw \<rparr>"
  let ?a1 = "?a\<lparr> io_log := io_log ?a @ [QueryAdxl345End (print_time_to_clock (mcu ?a) ft)],
               last_tx_time := ft, query_rate := 0, adxl_raw_samples := [] \<rparr>"
  have sd: "setup_data ADXL345Results_init (adxl_axes_map ?a) ?raw ?e (uint (limit_count ps))
              (samples_start1 ?a) (samples_start2 ?a)
              (clock_to_print_time (mcu ?a) (end1_clock ps))
              (clock_to_print_time (mcu ?a) (end2_clock ps)) = Inr ?r"
    using ne e0 t0 by (simp add: setup_data_cases)
  have rr: "raw_samples ?r = Some ?raw" by simp
  have tc: "total_count ?r = Some (expected_total ?raw ?e)" by simp
  have fin: "finish_measurements ?a ft ps = Inr (?a1, ?r)"
    unfolding finish_measuring[OF m] sd by (simp only: bind_res_Inr tc option.case)
  from decode_samples_eq[OF sd rr] decodable_valid[OF vp] le
  have dec: "decode_samples ?r =
      Inr (?r\<lparr>samples := map Some (concat (map
                   (block_samples (adxl_axes_map ?a) (samples_start2 ?a)
                      (time_per_sample ?r * 8) (time_per_sample ?r)) ?raw))\<rparr>,
           map Some (concat (map
                   (block_samples (adxl_axes_map ?a) (samples_start2 ?a)
                      (time_per_sample ?r * 8) (time_per_sample ?r)) ?raw)))"
    by simp
  have "measured self ft ps =
     Inr (?a1, concat (map (block_samples (adxl_axes_map ?a) (samples_start2 ?a)
                      (time_per_sample ?r * 8) (time_per_sample ?r)) ?raw))"
    unfolding measured_def fin
    by (simp only: bind_res_Inr prod.case dec cells_map_Some)
  then show ?thesis by blast
qed

subsection \<open>The example calibrations\<close>

lemma example_probe_ready: "probe_ready exact_arith example_probe"
proof -
  have a: "(0::real) \<le> 5000 / (0.0625 * (9.80665 * 1000))" by simp
  have b: "5000 / (0.0625 * (9.80665 * 1000)) \<le> (255::real)" by simp
  have c: "(0::real) \<le> 0.01 / 0.000625" by simp
  have d: "0.01 / 0.000625 \<le> (255::real)" by simp
  have fa: "\<lfloor>5000 / (0.0625 * (9.80665 * 1000)) :: real\<rfloor> \<le> 255"
    using b by (simp only: floor_le_iff)
  have fc: "\<lfloor>0.01 / 0.000625 :: real\<rfloor> \<le> 255"
    using d by (simp only: floor_le_iff)
  have fa0: "0 \<le> \<lfloor>5000 / (0.0625 * (9.80665 * 1000)) :: real\<rfloor>"
    using a by (simp only: zero_le_floor)
  have fc0: "0 \<le> \<lfloor>0.01 / 0.000625 :: real\<rfloor>"
    using c by (simp only: zero_le_floor)
  have t: "0 \<le> py_int (5000 / TAP_SCALE)" "py_int (5000 / TAP_SCALE) \<le> 255"
    using a fa fa0 by (simp_all only: py_int_def TAP_SCALE_def FREEFALL_ACCEL_def if_True)
  have u: "0 \<le> py_int (0.01 / DUR_SCALE)" "py_int (0.01 / DUR_SCALE) \<le> 255"
    using c fc fc0 by (simp_all only: py_int_def DUR_SCALE_def if_True)
  show ?thesis
    using t u
    by (simp add: probe_ready_def example_probe_def exact_arith_def example_adxl345_def
        ADXL345_init_def example_chip_def QUERY_RATES_def)
qed

lemma example_probe_idle: "\<not> is_measuring (adxl345 example_probe)"
  by (simp add: is_measuring_def example_probe_def example_adxl345_def ADXL345_init_def)

lemma upt3: "[0..<3] = [0, 1, 2]"
  by (simp add: upt_rec)

lemma sdata6:
  "sdata [a, b, c, d, e, f] =
     [(uint a OR push_bit 8 (uint b)) - push_bit 9 (uint b AND 0x80),
      (uint c OR push_bit 8 (uint d)) - push_bit 9 (uint d AND 0x80),
      (uint e OR push_bit 8 (uint f)) - push_bit 9 (uint f AND 0x80)]"
  by (simp add: sdata_def upt3)

lemma sdata_freefall: "sdata [0, 0, 0, 0, 0, 0] = [0, 0, 0]"
  by (simp add: sdata6)

lemma sdata_level: "sdata [0, 0, 0, 0, 0, 1] = [0, 0, 256]"
  by (simp add: sdata6)

lemma one_sample_measured:
  assumes arm: "session_armed w"
    and att: "start_msg att = None" "blocks att = [\<lparr> sequence = 0, data = d \<rparr>]"
      "length d = 6" "end_sequence (end_msg att) = 1"
  shows "\<exists>a1 tm. measured (w\<lparr> adxl345 := deliver (adxl345 w) att \<rparr>) (finish_time att) (end_msg att)
            = Inr (a1, [\<lparr> time = tm, accel_x = of_int (sdata d ! 0) * SCALE,
                           accel_y = of_int (sdata d ! 1) * SCALE,
                           accel_z = of_int (sdata d ! 2) * SCALE \<rparr>])
          \<and> query_rate a1 = 0 \<and> regs a1 = regs (adxl345 w)
          \<and> data_rate a1 = data_rate (adxl345 w) \<and> adxl_axes_map a1 = example_axes_map"
proof -
  let ?a = "adxl345 w"
  from arm have q: "0 < query_rate ?a" and raw: "adxl_raw_samples ?a = []"
    and ls: "last_sequence ?a = 0" and am: "adxl_axes_map ?a = example_axes_map"
    by (simp_all add: session_armed_def)
  have del: "deliver ?a att = ?a\<lparr> last_sequence := 0, adxl_raw_samples := [(0, d)] \<rparr>"
    using raw ls
    by (simp add: deliver_def att handle_adxl345_data_def Let_def)
  let ?w = "w\<lparr> adxl345 := deliver (adxl345 w) att \<rparr>"
  have cs: "convert_sequence (adxl345 ?w) (end_sequence (end_msg att)) = 1"
    by (simp add: del att convert_sequence_def Let_def)
  have et: "expected_total (adxl_raw_samples (adxl345 ?w)) 1 = 1"
    by (simp add: del expected_total_def att)
  have rc: "received_count (adxl_raw_samples (adxl345 ?w)) = 1"
    by (simp add: del att)
  have m: "is_measuring (adxl345 ?w)" using q by (simp add: del is_measuring_def)
  have ne: "adxl_raw_samples (adxl345 ?w) \<noteq> []" by (simp add: del)
  have vp: "valid_positions (adxl_axes_map (adxl345 ?w))"
    by (simp add: del am example_valid_positions)
  from measured_ok[of ?w "end_msg att" "finish_time att", OF m ne]
  obtain tps where
    "measured ?w (finish_time att) (end_msg att) =
     Inr ((adxl345 ?w)\<lparr> io_log := io_log (adxl345 ?w)
                 @ [QueryAdxl345End (print_time_to_clock (mcu (adxl345 ?w)) (finish_time att))],
               last_tx_time := finish_time att, query_rate := 0, adxl_raw_samples := [] \<rparr>,
          concat (map (block_samples (adxl_axes_map (adxl345 ?w))
                         (samples_start2 (adxl345 ?w)) (tps * 8) tps)
                    (adxl_raw_samples (adxl345 ?w))))"
    using cs et rc vp by auto
  then show ?thesis
    by (simp add: del am block_samples_def att sample_of_def example_axes_map_def)
qed

lemma freefall_out:
  "out_of_tolerance exact_arith th [\<lparr> time = tm, accel_x = 0, accel_y = 0, accel_z = 0 \<rparr>]"
  by (simp add: out_of_tolerance_def meas_of_def mean_axis_def exact_arith_def
      FREEFALL_ACCEL_def)

lemma level_in:
  "0 \<le> th \<Longrightarrow>
   \<not> out_of_tolerance exact_arith th
       [\<lparr> time = tm, accel_x = 0, accel_y = 0, accel_z = 256 * SCALE \<rparr>]"
  by (simp add: out_of_tolerance_def meas_of_def mean_axis_def exact_arith_def
      peak_deviation_def FREEFALL_ACCEL_def SCALE_def)

lemma offset_axes_retry:
  assumes m: "measured self ft ps = Inr (a1, ms)" and ne: "ms \<noteq> []"
    and oot: "out_of_tolerance fa (tap_thresh self) ms" and r: "0 < retries"
    and pr: "probe_ready fa (self\<lparr> adxl345 := a1 \<rparr>)" and idle: "\<not> is_measuring a1"
  shows "\<exists>a' msg. offset_axes fa self retries ft ps rt
             = Inr (self\<lparr> adxl345 := a', messages := messages self @ [msg] \<rparr>,
                    Rescheduled (retries - 1))
           \<and> query_rate a' = data_rate a1 \<and> adxl_raw_samples a' = [] \<and> last_sequence a' = 0
           \<and> samples_start2 a' = rt \<and> adxl_axes_map a' = adxl_axes_map a1
           \<and> data_rate a' = data_rate a1 \<and> regs a' REG_DEVID = ADXL345_DEV_ID"
proof -
  have step: "\<exists>a'. retry_or_abort fa (self\<lparr> adxl345 := a1 \<rparr>) retries rt m1 m2
             = Inr (self\<lparr> adxl345 := a', messages := messages self @ [m1] \<rparr>,
                    Rescheduled (retries - 1))
           \<and> query_rate a' = data_rate a1 \<and> adxl_raw_samples a' = [] \<and> last_sequence a' = 0
           \<and> samples_start2 a' = rt \<and> adxl_axes_map a' = adxl_axes_map a1
           \<and> data_rate a' = data_rate a1 \<and> regs a' REG_DEVID = ADXL345_DEV_ID" for m1 m2
  proof -
    let ?w = "self\<lparr> adxl345 := a1, messages := messages self @ [m1] \<rparr>"
    have p: "probe_ready fa ?w" using pr by (simp add: probe_ready_def)
    have i: "\<not> is_measuring (adxl345 ?w)" using idle by simp
    from calibrate_ok[OF p i, of "retries - 1" rt] obtain a' where
      c: "calibrate fa ?w (retries - 1) rt = Inr (?w\<lparr> adxl345 := a' \<rparr>, retries - 1)"
      and f: "query_rate a' = data_rate (adxl345 ?w)" "adxl_raw_samples a' = []"
        "last_sequence a' = 0" "samples_start2 a' = rt"
        "adxl_axes_map a' = adxl_axes_map (adxl345 ?w)" "data_rate a' = data_rate (adxl345 ?w)"
        "regs a' REG_DEVID = ADXL345_DEV_ID"
      by blast
    have "retry_or_abort fa (self\<lparr> adxl345 := a1 \<rparr>) retries rt m1 m2
            = Inr (self\<lparr> adxl345 := a', messages := messages self @ [m1] \<rparr>,
                   Rescheduled (retries - 1))"
      using r c by (simp add: retry_or_abort_def)
    with f show ?thesis by (intro exI[of _ a']) simp
  qed
  from oot have "fl_mul fa FREEFALL_ACCEL 0.5 < \<bar>fl_sub fa (meas_of fa ms) FREEFALL_ACCEL\<bar>
     \<or> tap_thresh self < accel_noise_of fa ms"
    by (simp add: out_of_tolerance_alt)
  then show ?thesis
  proof (cases "fl_mul fa FREEFALL_ACCEL 0.5 < \<bar>fl_sub fa (meas_of fa ms) FREEFALL_ACCEL\<bar>")
    case True
    from step[of "FreefallRetrying (meas_of fa ms) (retries - 1)"
                 "FreefallAborting (meas_of fa ms)"]
    show ?thesis
      unfolding offset_axes_steps[OF m ne] using True by (simp only: if_True) blast
  next
    case False
    with \<open>_ \<or> _\<close> have n: "tap_thresh self < accel_noise_of fa ms" by simp
    from step[of "NoiseRetrying (tap_thresh self) (accel_noise_of fa ms) (retries - 1)"
                 "NoiseAborting (tap_thresh self) (accel_noise_of fa ms)"]
    show ?thesis
      unfolding offset_axes_steps[OF m ne] using False n by (simp only: if_True if_False) blast
  qed
qed

lemma freefall_measured:
  assumes "session_armed w"
  shows "\<exists>a1 ms. measured (w\<lparr> adxl345 := deliver (adxl345 w) freefall_attempt \<rparr>)
                    (finish_time freefall_attempt) (end_msg freefall_attempt) = Inr (a1, ms)
           \<and> ms \<noteq> [] \<and> out_of_tolerance exact_arith th ms
           \<and> query_rate a1 = 0 \<and> regs a1 = regs (adxl345 w)
           \<and> data_rate a1 = data_rate (adxl345 w) \<and> adxl_axes_map a1 = example_axes_map"
proof -
  from one_sample_measured[OF assms, of freefall_attempt "[0, 0, 0, 0, 0, 0]"]
  obtain a1 tm where
    "measured (w\<lparr> adxl345 := deliver (adxl345 w) freefall_attempt \<rparr>)
        (finish_time freefall_attempt) (end_msg freefall_attempt)
       = Inr (a1, [\<lparr> time = tm, accel_x = 0, accel_y = 0, accel_z = 0 \<rparr>])"
    "query_rate a1 = 0" "regs a1 = regs (adxl345 w)"
    "data_rate a1 = data_rate (adxl345 w)" "adxl_axes_map a1 = example_axes_map"
    by (auto simp: freefall_attempt_def sdata_freefall)
  then show ?thesis
    using freefall_out[of th tm]
    by (intro exI[of _ a1] exI[of _ "[\<lparr> time = tm, accel_x = 0, accel_y = 0, accel_z = 0 \<rparr>]"])
      simp
qed

lemma freefall_run:
  assumes "probe_ready exact_arith w" "session_armed w"
  shows "\<exists>w'. run_callbacks exact_arith w (int k) (replicate (Suc k) freefall_attempt) n
                 = Inr (w', Aborted, n + k + 1)
              \<and> calibrated w' = calibrated w
              \<and> persistently_out exact_arith w (int k) (replicate (Suc k) freefall_attempt)"
  using assms
proof (induction k arbitrary: w n)
  case 0
  let ?w0 = "w\<lparr> adxl345 := deliver (adxl345 w) freefall_attempt \<rparr>"
  from freefall_measured[OF 0(2), of "tap_thresh ?w0"] obtain a1 ms where
    m: "measured ?w0 (finish_time freefall_attempt) (end_msg freefall_attempt) = Inr (a1, ms)"
    and ne: "ms \<noteq> []" and oot: "out_of_tolerance exact_arith (tap_thresh ?w0) ms"
    by blast
  from offset_axes_abort[OF m ne oot, of 0 "restart_time freefall_attempt"] obtain msg where
    o: "offset_axes exact_arith ?w0 0 (finish_time freefall_attempt) (end_msg freefall_attempt)
          (restart_time freefall_attempt)
        = Inr (?w0\<lparr> adxl345 := a1, messages := messages ?w0 @ [msg] \<rparr>, Aborted)"
    by auto
  show ?case
    using o m oot by simp
next
  case (Suc k)
  let ?w0 = "w\<lparr> adxl345 := deliver (adxl345 w) freefall_attempt \<rparr>"
  from freefall_measured[OF Suc.prems(2), of "tap_thresh ?w0"] obtain a1 ms where
    m: "measured ?w0 (finish_time freefall_attempt) (end_msg freefall_attempt) = Inr (a1, ms)"
    and ne: "ms \<noteq> []" and oot: "out_of_tolerance exact_arith (tap_thresh ?w0) ms"
    and a1: "query_rate a1 = 0" "regs a1 = regs (adxl345 w)"
      "data_rate a1 = data_rate (adxl345 w)" "adxl_axes_map a1 = example_axes_map"
    by blast
  have pr: "probe_ready exact_arith (?w0\<lparr> adxl345 := a1 \<rparr>)"
    using Suc.prems(1) a1 by (simp add: probe_ready_def)
  have idle: "\<not> is_measuring a1" using a1 by (simp add: is_measuring_def)
  have pos: "0 < int (Suc k)" by simp
  from offset_axes_retry[OF m ne oot pos pr idle, of "restart_time freefall_attempt"]
  obtain a' msg where
    o: "offset_axes exact_arith ?w0 (int (Suc k)) (finish_time freefall_attempt)
          (end_msg freefall_attempt) (restart_time freefall_attempt)
        = Inr (?w0\<lparr> adxl345 := a', messages := messages ?w0 @ [msg] \<rparr>,
               Rescheduled (int (Suc k) - 1))"
    and a': "query_rate a' = data_rate a1" "adxl_raw_samples a' = []" "last_sequence a' = 0"
      "adxl_axes_map a' = adxl_axes_map a1" "data_rate a' = data_rate a1"
      "regs a' REG_DEVID = ADXL345_DEV_ID"
    by blast
  let ?w1 = "?w0\<lparr> adxl345 := a', messages := messages ?w0 @ [msg] \<rparr>"
  have rate: "0 < data_rate (adxl345 w)"
    using Suc.prems(1) query_rates_Some(3)[of "data_rate (adxl345 w)"]
    by (auto simp: probe_ready_def)
  have p1: "probe_ready exact_arith ?w1"
    using Suc.prems(1) a' a1 by (simp add: probe_ready_def)
  have s1: "session_armed ?w1"
    using a' a1 rate by (simp add: session_armed_def)
  from Suc.IH[OF p1 s1, of "n + 1"] obtain w' where
    r: "run_callbacks exact_arith ?w1 (int k) (replicate (Suc k) freefall_attempt) (n + 1)
          = Inr (w', Aborted, n + 1 + k + 1)"
    and c: "calibrated w' = calibrated ?w1"
    and p: "persistently_out exact_arith ?w1 (int k) (replicate (Suc k) freefall_attempt)"
    by blast
  have k1: "int (Suc k) - 1 = int k" by simp
  have run: "run_callbacks exact_arith w (int (Suc k))
               (replicate (Suc (Suc k)) freefall_attempt) n = Inr (w', Aborted, n + Suc k + 1)"
    using r by (simp add: o k1 del: of_nat_Suc)
  have per: "persistently_out exact_arith w (int (Suc k))
               (replicate (Suc (Suc k)) freefall_attempt)"
    using p m oot by (simp add: o k1 del: of_nat_Suc)
  from run c per show ?case by (intro exI[of _ w']) simp
qed

lemma ofs_val_rounded: "ofs_val fa ofs sc = rounded_offset fa ofs sc mod 256"
  by (simp add: ofs_val_mod rounded_offset_def)

lemma offset_axes_writes:
  assumes o: "offset_axes fa self retries ft ps rt = Inr (self', Calibrated)"
    and am: "w_axes_map self = ((xp, xs), (yp, ys), (zp, zs))"
  shows "\<exists>a1 ms. measured self ft ps = Inr (a1, ms) \<and> ms \<noteq> [] \<and> calibrated self'
           \<and> io_log (adxl345 self') = io_log a1 @
                [SpiSend (ofs_regs ! xp)
                   (rounded_offset fa (mean_axis fa accel_x ms) xs mod 256) 0,
                 SpiTransfer (ofs_regs ! xp OR REG_MOD_READ),
                 SpiSend (ofs_regs ! yp)
                   (rounded_offset fa (mean_axis fa accel_y ms) ys mod 256) 0,
                 SpiTransfer (ofs_regs ! yp OR REG_MOD_READ),
                 SpiSend (ofs_regs ! zp)
                   (rounded_offset fa (mean_axis fa accel_z ms) zs mod 256) 0,
                 SpiTransfer (ofs_regs ! zp OR REG_MOD_READ)]
           \<and> regs (adxl345 self') = (regs a1)
                (ofs_regs ! xp := rounded_offset fa (mean_axis fa accel_x ms) xs mod 256,
                 ofs_regs ! yp := rounded_offset fa (mean_axis fa accel_y ms) ys mod 256,
                 ofs_regs ! zp := rounded_offset fa (mean_axis fa accel_z ms) zs mod 256)
           \<and> xp < 3 \<and> yp < 3 \<and> zp < 3"
proof -
  from offset_axes_calibrated[OF o] obtain a1 ms where
    m: "measured self ft ps = Inr (a1, ms)" "ms \<noteq> []" "calibrated self'"
    and w: "write_offsets fa a1 [(mean_axis fa accel_x ms, (xp, xs)),
              (mean_axis fa accel_y ms, (yp, ys)), (mean_axis fa accel_z ms, (zp, zs))]
            = Inr (adxl345 self')"
    by (auto simp: am)
  from write_offsets_Inr[OF w] m show ?thesis
    by (intro exI[of _ a1] exI[of _ ms]) (simp add: offset_writes_def rounded_offset_def)
qed

lemma rounded_offset_level:
  "rounded_offset exact_arith (256 * SCALE) SCALE = - 64"
  "rounded_offset exact_arith 0 SCALE = 0"
  by (simp_all add: rounded_offset_def exact_arith_def SCALE_def OFS_SCALE_def
      FREEFALL_ACCEL_def py_round_def Let_def)

lemma level_measured:
  assumes "session_armed w" "0 \<le> th"
  shows "\<exists>a1 ms. measured (w\<lparr> adxl345 := deliver (adxl345 w) level_attempt \<rparr>)
                    (finish_time level_attempt) (end_msg level_attempt) = Inr (a1, ms)
           \<and> ms \<noteq> [] \<and> \<not> out_of_tolerance exact_arith th ms
           \<and> mean_axis exact_arith accel_x ms = 0 \<and> mean_axis exact_arith accel_y ms = 0
           \<and> mean_axis exact_arith accel_z ms = 256 * SCALE"
proof -
  from one_sample_measured[OF assms(1), of level_attempt "[0, 0, 0, 0, 0, 1]"]
  obtain a1 tm where
    "measured (w\<lparr> adxl345 := deliver (adxl345 w) level_attempt \<rparr>)
        (finish_time level_attempt) (end_msg level_attempt)
       = Inr (a1, [\<lparr> time = tm, accel_x = 0, accel_y = 0, accel_z = 256 * SCALE \<rparr>])"
    by (auto simp: level_attempt_def sdata_level)
  then show ?thesis
    using level_in[OF assms(2), of tm]
    by (intro exI[of _ a1]
        exI[of _ "[\<lparr> time = tm, accel_x = 0, accel_y = 0, accel_z = 256 * SCALE \<rparr>]"])
      (simp add: mean_axis_def exact_arith_def)
qed

lemma example_valid_axes: "valid_axes_map example_axes_map"
  by (simp add: valid_axes_map_def example_axes_map_def SCALE_def FREEFALL_ACCEL_def)

lemma level_calibration:
  assumes "session_armed w" "0 \<le> tap_thresh w" "w_axes_map w = example_axes_map"
  shows "\<exists>a1 ms w'. measured (w\<lparr> adxl345 := deliver (adxl345 w) level_attempt \<rparr>)
                    (finish_time level_attempt) (end_msg level_attempt) = Inr (a1, ms)
           \<and> ms \<noteq> [] \<and> \<not> out_of_tolerance exact_arith (tap_thresh w) ms
           \<and> mean_axis exact_arith accel_x ms = 0 \<and> mean_axis exact_arith accel_y ms = 0
           \<and> mean_axis exact_arith accel_z ms = 256 * SCALE
           \<and> offset_axes exact_arith (w\<lparr> adxl345 := deliver (adxl345 w) level_attempt \<rparr>) r
                (finish_time level_attempt) (end_msg level_attempt) (restart_time level_attempt)
               = Inr (w', Calibrated)"
proof -
  let ?w0 = "w\<lparr> adxl345 := deliver (adxl345 w) level_attempt \<rparr>"
  from level_measured[OF assms(1,2)] obtain a1 ms where
    m: "measured ?w0 (finish_time level_attempt) (end_msg level_attempt) = Inr (a1, ms)"
    and ne: "ms \<noteq> []" and ok: "\<not> out_of_tolerance exact_arith (tap_thresh w) ms"
    and mean: "mean_axis exact_arith accel_x ms = 0" "mean_axis exact_arith accel_y ms = 0"
      "mean_axis exact_arith accel_z ms = 256 * SCALE"
    by blast
  have ok0: "\<not> out_of_tolerance exact_arith (tap_thresh ?w0) ms" using ok by simp
  have va: "valid_axes_map (w_axes_map ?w0)" using assms(3) by (simp add: example_valid_axes)
  from offset_axes_success[OF m ne ok0 va, of r "restart_time level_attempt"] obtain w' where
    "offset_axes exact_arith ?w0 r (finish_time level_attempt) (end_msg level_attempt)
       (restart_time level_attempt) = Inr (w', Calibrated)"
    by blast
  with m ne ok mean show ?thesis by blast
qed

subsection \<open>The retries of the calibration\<close>

lemma offset_axes_abort_msg:
  assumes "measured self ft ps = Inr (a1, ms)" "ms \<noteq> []"
    and "out_of_tolerance fa (tap_thresh self) ms" "retries \<le> 0"
  shows "\<exists>msg. (msg = FreefallAborting (meas_of fa ms)
                 \<or> msg = NoiseAborting (tap_thresh self) (accel_noise_of fa ms))
           \<and> offset_axes fa self retries ft ps rt
               = Inr (self\<lparr> adxl345 := a1, messages := messages self @ [msg] \<rparr>, Aborted)"
  using assms(3,4)
  by (auto simp: offset_axes_steps[OF assms(1,2)] out_of_tolerance_alt retry_or_abort_exhausted)

lemma offset_axes_rearmed:
  assumes m: "measured self ft ps = Inr (a1, ms)" and ne: "ms \<noteq> []"
    and oot: "out_of_tolerance fa (tap_thresh self) ms" and r: "0 < retries"
    and pr: "probe_ready fa (self\<lparr> adxl345 := a1 \<rparr>)" and idle: "\<not> is_measuring a1"
  shows "\<exists>self1. offset_axes fa self retries ft ps rt = Inr (self1, Rescheduled (retries - 1))
           \<and> is_measuring (adxl345 self1) \<and> adxl_raw_samples (adxl345 self1) = []"
proof -
  from offset_axes_retry[OF m ne oot r pr idle, of rt] obtain a' msg where
    o: "offset_axes fa self retries ft ps rt
             = Inr (self\<lparr> adxl345 := a', messages := messages self @ [msg] \<rparr>,
                    Rescheduled (retries - 1))"
    and a: "query_rate a' = data_rate a1" "adxl_raw_samples a' = []"
    by blast
  have "0 < data_rate a1"
    using pr query_rates_Some(3)[of "data_rate a1"] by (auto simp: probe_ready_def)
  with o a show ?thesis by (simp add: is_measuring_def)
qed


lemma example_armed:
  "\<exists>w0. calibrate exact_arith example_probe 3 0 = Inr (w0, 3)
      \<and> probe_ready exact_arith w0 \<and> session_armed w0 \<and> \<not> calibrated w0
      \<and> tap_thresh w0 = 5000 \<and> w_axes_map w0 = example_axes_map"
proof -
  from calibrate_ok[OF example_probe_ready example_probe_idle, of 3 0] obtain a' where
    c: "calibrate exact_arith example_probe 3 0 = Inr (example_probe\<lparr> adxl345 := a' \<rparr>, 3)"
    and a: "query_rate a' = data_rate (adxl345 example_probe)" "adxl_raw_samples a' = []"
      "last_sequence a' = 0" "adxl_axes_map a' = adxl_axes_map (adxl345 example_probe)"
      "data_rate a' = data_rate (adxl345 example_probe)" "regs a' REG_DEVID = ADXL345_DEV_ID"
    by blast
  have d: "data_rate (adxl345 example_probe) = 3200"
    "adxl_axes_map (adxl345 example_probe) = example_axes_map"
    by (simp_all add: example_probe_def example_adxl345_def ADXL345_init_def)
  have p: "probe_ready exact_arith (example_probe\<lparr> adxl345 := a' \<rparr>)"
    using example_probe_ready a by (simp add: probe_ready_def)
  have s: "session_armed (example_probe\<lparr> adxl345 := a' \<rparr>)"
    using a d by (simp add: session_armed_def)
  have r: "\<not> calibrated (example_probe\<lparr> adxl345 := a' \<rparr>)"
    "tap_thresh (example_probe\<lparr> adxl345 := a' \<rparr>) = 5000"
    "w_axes_map (example_probe\<lparr> adxl345 := a' \<rparr>) = example_axes_map"
    by (simp_all add: example_probe_def)
  from c p s r show ?thesis by blast
qed

lemma Suc3: "Suc 3 = 4"
  by simp


subsection \<open>The offset registers after a successful calibration\<close>

lemma signed_byte:
  assumes "- 128 \<le> r" "r \<le> 127"
  shows "sint (word_of_int (r mod 256) :: 8 word) = (r::int)"
proof -
  have "sint (word_of_int (r mod 256) :: 8 word) = signed_take_bit 7 (r mod 256)"
    by (simp add: sint_uint signed_take_bit_eq_iff_take_bit_eq unsigned_of_int)
  also have "\<dots> = signed_take_bit 7 r"
    by (simp add: signed_take_bit_eq_iff_take_bit_eq take_bit_eq_mod)
  also have "\<dots> = r"
    using assms by (simp add: signed_take_bit_int_eq_self)
  finally show ?thesis .
qed

lemma level_registers:
  assumes "session_armed w" "0 \<le> tap_thresh w" "w_axes_map w = example_axes_map"
  shows "\<exists>chip ms w'. measured (w\<lparr> adxl345 := deliver (adxl345 w) level_attempt \<rparr>)
                    (finish_time level_attempt) (end_msg level_attempt) = Inr (chip, ms)
           \<and> offset_axes exact_arith (w\<lparr> adxl345 := deliver (adxl345 w) level_attempt \<rparr>) r
                (finish_time level_attempt) (end_msg level_attempt) (restart_time level_attempt)
               = Inr (w', Calibrated)
           \<and> rounded_offset exact_arith (mean_axis exact_arith accel_z ms) SCALE = - 64
           \<and> regs (adxl345 w') REG_OFSZ = 192
           \<and> SpiSend REG_OFSZ 192 0 \<in> set (io_log (adxl345 w'))"
proof -
  let ?lv = "w\<lparr> adxl345 := deliver (adxl345 w) level_attempt \<rparr>"
  from level_calibration[OF assms, of r] obtain chip ms w' where
    m: "measured ?lv (finish_time level_attempt) (end_msg level_attempt) = Inr (chip, ms)"
    and mean: "mean_axis exact_arith accel_z ms = 256 * SCALE"
    and o: "offset_axes exact_arith ?lv r (finish_time level_attempt) (end_msg level_attempt)
               (restart_time level_attempt) = Inr (w', Calibrated)"
    by blast
  have am: "w_axes_map ?lv = ((0, SCALE), (1, SCALE), (2, SCALE))"
    using assms(3) by (simp add: example_axes_map_def)
  from offset_axes_writes[OF o am] m mean
  have "regs (adxl345 w') REG_OFSZ = 192 \<and> SpiSend REG_OFSZ 192 0 \<in> set (io_log (adxl345 w'))"
    by (auto simp: rounded_offset_level ofs_regs_def)
  with m o mean show ?thesis
    by (intro exI[of _ chip] exI[of _ ms] exI[of _ w']) (simp add: rounded_offset_level)
qed




end
